theory Spec2Isabelle
  imports Complex_Main "HOL-Library.Word"
begin

unbundle bit_operations_syntax

section \<open>Mesh normals: data model\<close>

text \<open>
  Shallow embedding of \<^verbatim>\<open>source/blender/blenkernel/intern/mesh_normals.cc\<close>.
  A C \<^verbatim>\<open>float\<close> is read as a real number: every comparison, threshold and branch of the
  source is kept, rounding of the float operations themselves is not modelled.
  A \<^verbatim>\<open>float[3]\<close> is a triple, an array is a list indexed from 0, an index is a natural
  number. The entries of \<^verbatim>\<open>edge_to_loops\<close> are C ints (they hold the negative sentinels).
\<close>

type_synonym float3 = "real \<times> real \<times> real"
type_synonym short2 = "16 word \<times> 16 word"

record MPoly =
  loopstart :: nat
  totloop :: nat
  poly_flag :: "8 word"

record MEdge =
  v1 :: nat
  v2 :: nat
  edge_flag :: "16 word"

record MLoopNorSpace =
  vec_lnor :: float3
  vec_ref :: float3
  vec_ortho :: float3
  ref_alpha :: real
  ref_beta :: real
  loops :: "nat list"
  flags :: "8 word"

text \<open>Flag bits of \<^verbatim>\<open>DNA_meshdata_types.h\<close> and \<^verbatim>\<open>BKE_mesh.h\<close>.\<close>

definition ME_SMOOTH :: "8 word" where
  "ME_SMOOTH = 1"

definition ME_SHARP :: "16 word" where
  "ME_SHARP = 512"

definition MLNOR_SPACE_IS_SINGLE :: "8 word" where
  "MLNOR_SPACE_IS_SINGLE = 1"

subsection \<open>Vector helpers\<close>

text \<open>
  The \<^verbatim>\<open>BLI_math\<close> helpers that \<^verbatim>\<open>mesh_normals.cc\<close> calls. Their names and argument order
  are the ones of the call sites.
\<close>

definition zero_v3 :: float3 where
  "zero_v3 = (0, 0, 0)"

fun is_zero_v3 :: "float3 \<Rightarrow> bool" where
  "is_zero_v3 (x, y, z) = (x = 0 \<and> y = 0 \<and> z = 0)"

fun dot_v3v3 :: "float3 \<Rightarrow> float3 \<Rightarrow> real" where
  "dot_v3v3 (a0, a1, a2) (b0, b1, b2) = a0 * b0 + a1 * b1 + a2 * b2"

fun add_v3_v3 :: "float3 \<Rightarrow> float3 \<Rightarrow> float3" where
  "add_v3_v3 (r0, r1, r2) (a0, a1, a2) = (r0 + a0, r1 + a1, r2 + a2)"

fun sub_v3_v3v3 :: "float3 \<Rightarrow> float3 \<Rightarrow> float3" where
  "sub_v3_v3v3 (a0, a1, a2) (b0, b1, b2) = (a0 - b0, a1 - b1, a2 - b2)"

fun mul_v3_v3fl :: "float3 \<Rightarrow> real \<Rightarrow> float3" where
  "mul_v3_v3fl (a0, a1, a2) f = (a0 * f, a1 * f, a2 * f)"

fun madd_v3_v3fl :: "float3 \<Rightarrow> float3 \<Rightarrow> real \<Rightarrow> float3" where
  "madd_v3_v3fl (r0, r1, r2) (a0, a1, a2) f = (r0 + a0 * f, r1 + a1 * f, r2 + a2 * f)"

fun cross_v3_v3v3 :: "float3 \<Rightarrow> float3 \<Rightarrow> float3" where
  "cross_v3_v3v3 (a0, a1, a2) (b0, b1, b2) =
     (a1 * b2 - a2 * b1, a2 * b0 - a0 * b2, a0 * b1 - a1 * b0)"

definition compare_ff :: "real \<Rightarrow> real \<Rightarrow> real \<Rightarrow> bool" where
  "compare_ff a b max_diff = (\<bar>a - b\<bar> \<le> max_diff)"

fun compare_v3v3 :: "float3 \<Rightarrow> float3 \<Rightarrow> real \<Rightarrow> bool" where
  "compare_v3v3 (a0, a1, a2) (b0, b1, b2) limit =
     (compare_ff a0 b0 limit \<and> compare_ff a1 b1 limit \<and> compare_ff a2 b2 limit)"

text \<open>
  Modelled from the spec: \<^verbatim>\<open>normalize_v3\<close> (BLI_math, not in the sources at hand) is the
  spec's \<open>normalize_or_fallback\<close> with the zero vector as fallback: a vector whose length is
  numerically zero becomes the zero vector and the returned length is 0, any other vector
  is scaled to unit length and its former length is returned. The callers test the returned
  length against 0 and rely on the zeroed axes (\<^verbatim>\<open>/* other axis set to 0.0 */\<close>).
\<close>

definition normalize_eps :: real where
  "normalize_eps = 1 / 10 ^ 35"

definition normalize_v3_v3 :: "float3 \<Rightarrow> float3 \<times> real" where
  "normalize_v3_v3 a =
     (let d = dot_v3v3 a a
      in if d > normalize_eps then (mul_v3_v3fl a (1 / sqrt d), sqrt d) else (zero_v3, 0))"

text \<open>
  Modelled from the spec: \<^verbatim>\<open>saacos\<close>/\<^verbatim>\<open>saacosf\<close> (BLI_math) is the arc cosine clamped to
  the valid range.
\<close>

definition saacos :: "real \<Rightarrow> real" where
  "saacos fac = (if fac \<le> - 1 then pi else if fac \<ge> 1 then 0 else arccos fac)"

section \<open>Normal-space codec\<close>

text \<open>
  Floats are read as reals. The two float constants of the codec have their exact values:
  \<^verbatim>\<open>LNOR_SPACE_TRIGO_THRESHOLD\<close> is \<^verbatim>\<open>(1.0f - 1e-4f)\<close>, the float \<open>16775538 / 2\<^sup>2\<^sup>4\<close>, and the
  literal \<^verbatim>\<open>1e-4f\<close> is the float \<open>13743895 / 2\<^sup>3\<^sup>7\<close>.
\<close>

definition LNOR_SPACE_TRIGO_THRESHOLD :: real where
  "LNOR_SPACE_TRIGO_THRESHOLD = 16775538 / 16777216"

definition float_1e_4 :: real where
  "float_1e_4 = 13743895 / 137438953472"

definition SHRT_MAX :: int where
  "SHRT_MAX = 32767"

definition unit_short_to_float :: "16 word \<Rightarrow> real" where
  "unit_short_to_float val = real_of_int (sint val) / real_of_int SHRT_MAX"

text \<open>\<^verbatim>\<open>short(floorf(val * SHRT_MAX + 0.5f))\<close>; the conversion to \<^verbatim>\<open>short\<close> keeps the low 16 bits.\<close>

definition unit_float_to_short :: "real \<Rightarrow> 16 word" where
  "unit_float_to_short val = word_of_int \<lfloor>val * real_of_int SHRT_MAX + 1 / 2\<rfloor>"

definition BKE_lnor_space_custom_data_to_normal :: "MLoopNorSpace \<Rightarrow> short2 \<Rightarrow> float3" where
  "BKE_lnor_space_custom_data_to_normal lnor_space clnor_data =
     (if fst clnor_data = 0 \<or> ref_alpha lnor_space = 0 \<or> ref_beta lnor_space = 0
      then vec_lnor lnor_space
      else
        let pi2 = pi * 2;
            alphafac = unit_short_to_float (fst clnor_data);
            alpha = (if alphafac > 0 then ref_alpha lnor_space else pi2 - ref_alpha lnor_space)
                    * alphafac;
            betafac = unit_short_to_float (snd clnor_data);
            r = mul_v3_v3fl (vec_lnor lnor_space) (cos alpha)
        in if betafac = 0 then madd_v3_v3fl r (vec_ref lnor_space) (sin alpha)
           else
             let sinalpha = sin alpha;
                 beta = (if betafac > 0 then ref_beta lnor_space else pi2 - ref_beta lnor_space)
                        * betafac;
                 r1 = madd_v3_v3fl r (vec_ref lnor_space) (sinalpha * cos beta)
             in madd_v3_v3fl r1 (vec_ortho lnor_space) (sinalpha * sin beta))"

definition BKE_lnor_space_custom_normal_to_data :: "MLoopNorSpace \<Rightarrow> float3 \<Rightarrow> short2" where
  "BKE_lnor_space_custom_normal_to_data lnor_space custom_lnor =
     (if is_zero_v3 custom_lnor \<or> compare_v3v3 (vec_lnor lnor_space) custom_lnor float_1e_4
      then (0, 0)
      else
        let pi2 = pi * 2;
            cos_alpha = dot_v3v3 (vec_lnor lnor_space) custom_lnor;
            alpha = saacos cos_alpha;
            d0 = (if alpha > ref_alpha lnor_space
                  then unit_float_to_short (- (pi2 - alpha) / (pi2 - ref_alpha lnor_space))
                  else unit_float_to_short (alpha / ref_alpha lnor_space));
            vec = fst (normalize_v3_v3
                         (add_v3_v3 (mul_v3_v3fl (vec_lnor lnor_space) (- cos_alpha)) custom_lnor));
            cos_beta = dot_v3v3 (vec_ref lnor_space) vec;
            d1 = (if cos_beta < LNOR_SPACE_TRIGO_THRESHOLD
                  then
                    let beta0 = saacos cos_beta;
                        beta = (if dot_v3v3 (vec_ortho lnor_space) vec < 0 then pi2 - beta0
                                else beta0)
                    in if beta > ref_beta lnor_space
                       then unit_float_to_short (- (pi2 - beta) / (pi2 - ref_beta lnor_space))
                       else unit_float_to_short (beta / ref_beta lnor_space)
                  else 0)
        in (d0, d1))"

section \<open>Polygon and vertex normals\<close>

text \<open>
  Modelled from the spec: \<^verbatim>\<open>add_newell_cross_v3_v3v3\<close>, \<^verbatim>\<open>normal_tri_v3\<close> and
  \<^verbatim>\<open>normal_quad_v3\<close> are BLI_math helpers, not in the sources at hand. Newell's method adds
  the cross term of two successive vertices. The spec's \<open>face_normal\<close>: a triangle uses the
  cross product of two edges, a quad the symmetric 4-point formula (the cross product of its
  diagonals), the result is a unit vector, and a degenerate (zero-area) face falls back to
  \<open>(0, 0, 1)\<close>.
\<close>

fun add_newell_cross_v3_v3v3 :: "float3 \<Rightarrow> float3 \<Rightarrow> float3 \<Rightarrow> float3" where
  "add_newell_cross_v3_v3v3 (n0, n1, n2) (p0, p1, p2) (c0, c1, c2) =
     (n0 + (p1 - c1) * (p2 + c2), n1 + (p2 - c2) * (p0 + c0), n2 + (p0 - c0) * (p1 + c1))"

definition face_normal_or_fallback :: "float3 \<Rightarrow> float3" where
  "face_normal_or_fallback n =
     (let (r_normal, len) = normalize_v3_v3 n in if len = 0 then (0, 0, 1) else r_normal)"

definition normal_tri_v3 :: "float3 \<Rightarrow> float3 \<Rightarrow> float3 \<Rightarrow> float3" where
  "normal_tri_v3 a b c =
     face_normal_or_fallback (cross_v3_v3v3 (sub_v3_v3v3 a b) (sub_v3_v3v3 b c))"

definition normal_quad_v3 :: "float3 \<Rightarrow> float3 \<Rightarrow> float3 \<Rightarrow> float3 \<Rightarrow> float3" where
  "normal_quad_v3 a b c d =
     face_normal_or_fallback (cross_v3_v3v3 (sub_v3_v3v3 a c) (sub_v3_v3v3 b d))"

text \<open>The loop \<^verbatim>\<open>for (i = 0; i < nverts; i++)\<close> of Newell's method, over the vertex indices.\<close>

fun newell_loop :: "float3 list \<Rightarrow> nat list \<Rightarrow> float3 \<Rightarrow> float3 \<Rightarrow> float3" where
  "newell_loop positions [] v_prev n = n"
| "newell_loop positions (i # rest) v_prev n =
     (let v_curr = positions ! i
      in newell_loop positions rest v_curr (add_newell_cross_v3_v3v3 n v_prev v_curr))"

text \<open>\<^verbatim>\<open>r_normal[2] = 1.0f; /* other axis set to 0.0 */\<close>\<close>

fun set_z_one :: "float3 \<Rightarrow> float3" where
  "set_z_one (n0, n1, n2) = (n0, n1, 1)"

text \<open>
  Newell's method with the fallback, as \<^verbatim>\<open>mesh_calc_ngon_normal\<close> and the inline block of
  \<^verbatim>\<open>calculate_normals_poly_and_vert\<close> both have it: start from the last vertex, sum, normalize,
  and set the z axis to 1 when the length is 0.
\<close>

definition newell_normal :: "float3 list \<Rightarrow> nat list \<Rightarrow> nat \<Rightarrow> float3" where
  "newell_normal positions poly_verts nverts =
     (let v_prev = positions ! (poly_verts ! (nverts - 1));
          n = newell_loop positions (take nverts poly_verts) v_prev zero_v3;
          (r_normal, len) = normalize_v3_v3 n
      in if len = 0 then set_z_one r_normal else r_normal)"

definition mesh_calc_ngon_normal :: "MPoly \<Rightarrow> nat list \<Rightarrow> float3 list \<Rightarrow> float3" where
  "mesh_calc_ngon_normal mpoly poly_verts positions =
     newell_normal positions poly_verts (totloop mpoly)"

definition BKE_mesh_calc_poly_normal :: "MPoly \<Rightarrow> nat list \<Rightarrow> float3 list \<Rightarrow> float3" where
  "BKE_mesh_calc_poly_normal mpoly poly_verts positions =
     (if totloop mpoly > 4 then mesh_calc_ngon_normal mpoly poly_verts positions
      else if totloop mpoly = 3
      then normal_tri_v3 (positions ! (poly_verts ! 0)) (positions ! (poly_verts ! 1))
             (positions ! (poly_verts ! 2))
      else if totloop mpoly = 4
      then normal_quad_v3 (positions ! (poly_verts ! 0)) (positions ! (poly_verts ! 1))
             (positions ! (poly_verts ! 2)) (positions ! (poly_verts ! 3))
      else (0, 0, 1))"

definition calculate_normals_poly :: "float3 list \<Rightarrow> MPoly list \<Rightarrow> nat list \<Rightarrow> float3 list" where
  "calculate_normals_poly positions polys corner_verts =
     map (\<lambda>poly. BKE_mesh_calc_poly_normal poly (drop (loopstart poly) corner_verts) positions)
       polys"

text \<open>
  The accumulation loop of \<^verbatim>\<open>calculate_normals_poly_and_vert\<close>:
  \<^verbatim>\<open>for (int i_next = 0, i_curr = i_end; i_next <= i_end; i_curr = i_next++)\<close>.
  The loop state is \<open>(i_curr, v_curr, edvec_prev, vert_normals)\<close>. The target of the addition is
  \<^verbatim>\<open>vert_normals[corner_verts[i_curr]]\<close>, as the source has it. The polygon tasks are run one
  after the other, in index order.
\<close>

type_synonym accum_state = "nat \<times> float3 \<times> float3 \<times> float3 list"

definition accumulate_corner ::
  "float3 list \<Rightarrow> nat list \<Rightarrow> nat list \<Rightarrow> float3 \<Rightarrow> nat \<Rightarrow> float3 \<Rightarrow> nat \<Rightarrow>
   accum_state \<Rightarrow> accum_state" where
  "accumulate_corner positions corner_verts poly_verts pnor i_end edvec_end i_next st =
     (case st of (i_curr, v_curr, edvec_prev, vert_normals) \<Rightarrow>
        let v_next = positions ! (poly_verts ! i_next);
            edvec_next = (if i_next \<noteq> i_end
                          then fst (normalize_v3_v3 (sub_v3_v3v3 v_curr v_next))
                          else edvec_end);
            fac = saacos (- dot_v3v3 edvec_prev edvec_next);
            vnor_add = mul_v3_v3fl pnor fac;
            vert_i = corner_verts ! i_curr;
            vnor = add_v3_v3 (vert_normals ! vert_i) vnor_add
        in (i_next, v_next, edvec_next, vert_normals[vert_i := vnor]))"

definition calculate_normals_poly_and_vert_task ::
  "float3 list \<Rightarrow> nat list \<Rightarrow> MPoly \<Rightarrow> float3 list \<Rightarrow> float3 \<times> float3 list" where
  "calculate_normals_poly_and_vert_task positions corner_verts poly vert_normals =
     (let poly_verts = take (totloop poly) (drop (loopstart poly) corner_verts);
          i_end = totloop poly - 1;
          pnor = newell_normal positions poly_verts (totloop poly);
          v_curr = positions ! (poly_verts ! i_end);
          edvec_prev = fst (normalize_v3_v3
                              (sub_v3_v3v3 (positions ! (poly_verts ! (i_end - 1))) v_curr));
          edvec_end = edvec_prev;
          st = fold (accumulate_corner positions corner_verts poly_verts pnor i_end edvec_end)
                 [0 ..< Suc i_end] (i_end, v_curr, edvec_prev, vert_normals)
      in (pnor, snd (snd (snd st))))"

fun accumulate_polys ::
  "float3 list \<Rightarrow> nat list \<Rightarrow> MPoly list \<Rightarrow> float3 list \<Rightarrow> float3 list \<times> float3 list" where
  "accumulate_polys positions corner_verts [] vert_normals = ([], vert_normals)"
| "accumulate_polys positions corner_verts (poly # rest) vert_normals =
     (let (pnor, vn) = calculate_normals_poly_and_vert_task positions corner_verts poly
                         vert_normals;
          (pnors, vn') = accumulate_polys positions corner_verts rest vn
      in (pnor # pnors, vn'))"

text \<open>The last pass: normalize, and use the vertex coordinate itself when the length is 0.\<close>

definition normalize_vert_normal :: "float3 \<Rightarrow> float3 \<Rightarrow> float3" where
  "normalize_vert_normal no position =
     (let (r, len) = normalize_v3_v3 no
      in if len = 0 then fst (normalize_v3_v3 position) else r)"

definition calculate_normals_poly_and_vert ::
  "float3 list \<Rightarrow> MPoly list \<Rightarrow> nat list \<Rightarrow> float3 list \<times> float3 list" where
  "calculate_normals_poly_and_vert positions polys corner_verts =
     (let vert_normals = replicate (length positions) zero_v3;
          (poly_normals, accumulated) = accumulate_polys positions corner_verts polys vert_normals
      in (poly_normals, map2 normalize_vert_normal accumulated positions))"

text \<open>
  For comparison with the code, the sum the spec asks for: for a vertex, the angle-weighted
  face normals of every polygon corner that references this vertex. The angle at corner \<open>i\<close>
  of a polygon is taken between the edges to its previous and next corner, with the same
  operations as the code.
\<close>

definition corner_contribution ::
  "float3 list \<Rightarrow> nat list \<Rightarrow> float3 \<Rightarrow> nat \<Rightarrow> nat \<Rightarrow> float3" where
  "corner_contribution positions poly_verts pnor n i =
     (let v_prev = positions ! (poly_verts ! ((i + n - 1) mod n));
          v_curr = positions ! (poly_verts ! i);
          v_next = positions ! (poly_verts ! ((i + 1) mod n));
          edvec_prev = fst (normalize_v3_v3 (sub_v3_v3v3 v_prev v_curr));
          edvec_next = fst (normalize_v3_v3 (sub_v3_v3v3 v_curr v_next))
      in mul_v3_v3fl pnor (saacos (- dot_v3v3 edvec_prev edvec_next)))"

definition poly_contributions :: "float3 list \<Rightarrow> nat list \<Rightarrow> MPoly \<Rightarrow> nat \<Rightarrow> float3 list" where
  "poly_contributions positions corner_verts poly vert =
     (let poly_verts = take (totloop poly) (drop (loopstart poly) corner_verts);
          pnor = newell_normal positions poly_verts (totloop poly)
      in map (corner_contribution positions poly_verts pnor (totloop poly))
           (filter (\<lambda>i. poly_verts ! i = vert) [0 ..< totloop poly]))"

definition vertex_normal_sum_spec ::
  "float3 list \<Rightarrow> MPoly list \<Rightarrow> nat list \<Rightarrow> nat \<Rightarrow> float3" where
  "vertex_normal_sum_spec positions polys corner_verts vert =
     fold (\<lambda>a r. add_v3_v3 r a)
       (concat (map (\<lambda>poly. poly_contributions positions corner_verts poly vert) polys)) zero_v3"

section \<open>Loop splitting: shared data and the sharp-edge tagging\<close>

text \<open>
  \<^verbatim>\<open>MLoopNorSpaceArray\<close>: \<^verbatim>\<open>lspacearr\<close> holds one pointer per corner into the spaces allocated
  from the arena; a pointer is the index of the space in \<open>spaces\<close>, \<^verbatim>\<open>nullptr\<close> is \<open>None\<close>.
  The linked list \<^verbatim>\<open>loops\<close> of a space is the list of its corner indices.
\<close>

record MLoopNorSpaceArray =
  lspacearr :: "nat option list"
  spaces :: "MLoopNorSpace list"
  spaces_num :: nat

record LoopSplitTaskDataCommon =
  data_lnors_spacearr :: "MLoopNorSpaceArray option"
  data_loopnors :: "float3 list"
  data_clnors_data :: "short2 list"
  data_positions :: "float3 list"
  data_edges :: "MEdge list"
  data_corner_verts :: "nat list"
  data_corner_edges :: "nat list"
  data_polys :: "MPoly list"
  data_edge_to_loops :: "(int \<times> int) list"
  data_loop_to_poly :: "nat list"
  data_polynors :: "float3 list"
  data_vert_normals :: "float3 list"

definition INDEX_UNSET :: int where
  "INDEX_UNSET = - 2147483648"

definition INDEX_INVALID :: int where
  "INDEX_INVALID = - 1"

definition IS_EDGE_SHARP :: "int \<times> int \<Rightarrow> bool" where
  "IS_EDGE_SHARP e2l = (snd e2l = INDEX_UNSET \<or> snd e2l = INDEX_INVALID)"

definition poly_is_smooth :: "MPoly \<Rightarrow> bool" where
  "poly_is_smooth poly = (poly_flag poly AND ME_SMOOTH \<noteq> 0)"

definition edge_is_sharp :: "MEdge \<Rightarrow> bool" where
  "edge_is_sharp edge = (edge_flag edge AND ME_SHARP \<noteq> 0)"

text \<open>The corners of a polygon: \<^verbatim>\<open>loopstart .. loopstart + totloop - 1\<close>.\<close>

definition poly_corners :: "MPoly \<Rightarrow> nat list" where
  "poly_corners poly = [loopstart poly ..< loopstart poly + totloop poly]"

text \<open>
  What the body of the scan does to the entry \<^verbatim>\<open>e2l\<close> of the corner's edge, and whether it
  sets or resets the bit of the edge in \<^verbatim>\<open>sharp_edges\<close> (\<open>Some True\<close>, \<open>Some False\<close>, or no
  change). The three branches are those of the source, in its order.
\<close>

definition is_angle_sharp_at ::
  "LoopSplitTaskDataCommon \<Rightarrow> bool \<Rightarrow> real \<Rightarrow> nat \<Rightarrow> int \<times> int \<Rightarrow> bool" where
  "is_angle_sharp_at data check_angle split_angle_cos mp_index e2l =
     (check_angle \<and>
      dot_v3v3 (data_polynors data ! (data_loop_to_poly data ! nat (fst e2l)))
        (data_polynors data ! mp_index) < split_angle_cos)"

definition sharp_tag_e2l ::
  "LoopSplitTaskDataCommon \<Rightarrow> bool \<Rightarrow> real \<Rightarrow> bool \<Rightarrow> nat \<Rightarrow> nat \<Rightarrow> int \<times> int \<Rightarrow>
   (int \<times> int) \<times> bool option" where
  "sharp_tag_e2l data check_angle split_angle_cos do_sharp_edges_tag mp_index ml_curr_index e2l =
     (let poly = data_polys data ! mp_index;
          vert_i = data_corner_verts data ! ml_curr_index;
          edge_i = data_corner_edges data ! ml_curr_index
      in if (fst e2l OR snd e2l) = 0
         then ((int ml_curr_index, if poly_is_smooth poly then INDEX_UNSET else INDEX_INVALID),
               None)
         else if snd e2l = INDEX_UNSET
         then
           let is_angle_sharp = is_angle_sharp_at data check_angle split_angle_cos mp_index e2l
           in if (poly_is_smooth poly = False) \<or> edge_is_sharp (data_edges data ! edge_i) \<or>
                 vert_i = data_corner_verts data ! nat (fst e2l) \<or> is_angle_sharp
              then ((fst e2l, INDEX_INVALID),
                    if do_sharp_edges_tag \<and> is_angle_sharp then Some True else None)
              else ((fst e2l, int ml_curr_index), None)
         else if IS_EDGE_SHARP e2l = False
         then ((fst e2l, INDEX_INVALID), if do_sharp_edges_tag then Some False else None)
         else (e2l, None))"

text \<open>
  The body of the inner loop of \<^verbatim>\<open>mesh_edges_sharp_tag\<close> for one corner: the loop normal is
  pre-populated with the vertex normal, then the entry of the corner's edge is updated.
\<close>

definition sharp_tag_corner ::
  "bool \<Rightarrow> real \<Rightarrow> bool \<Rightarrow> nat \<Rightarrow> nat \<Rightarrow> LoopSplitTaskDataCommon \<times> bool list \<Rightarrow>
   LoopSplitTaskDataCommon \<times> bool list" where
  "sharp_tag_corner check_angle split_angle_cos do_sharp_edges_tag mp_index ml_curr_index st =
     (case st of (data, sharp_edges) \<Rightarrow>
        let vert_i = data_corner_verts data ! ml_curr_index;
            edge_i = data_corner_edges data ! ml_curr_index;
            e2l = data_edge_to_loops data ! edge_i;
            loopnors = (if data_loopnors data \<noteq> []
                        then (data_loopnors data)[ml_curr_index := data_vert_normals data ! vert_i]
                        else data_loopnors data);
            (e2l', tagbit) = sharp_tag_e2l data check_angle split_angle_cos do_sharp_edges_tag
                            mp_index ml_curr_index e2l
        in (data\<lparr>data_loopnors := loopnors,
                   data_edge_to_loops := (data_edge_to_loops data)[edge_i := e2l']\<rparr>,
            case tagbit of None \<Rightarrow> sharp_edges | Some b \<Rightarrow> sharp_edges[edge_i := b]))"

definition sharp_tag_poly ::
  "bool \<Rightarrow> real \<Rightarrow> bool \<Rightarrow> nat \<Rightarrow> LoopSplitTaskDataCommon \<times> bool list \<Rightarrow>
   LoopSplitTaskDataCommon \<times> bool list" where
  "sharp_tag_poly check_angle split_angle_cos do_sharp_edges_tag mp_index st =
     fold (sharp_tag_corner check_angle split_angle_cos do_sharp_edges_tag mp_index)
       (poly_corners (data_polys (fst st) ! mp_index)) st"

text \<open>\<^verbatim>\<open>edges[i].flag |= ME_SHARP\<close> for every edge whose bit is set.\<close>

definition tag_edge :: "MEdge \<Rightarrow> bool \<Rightarrow> MEdge" where
  "tag_edge edge is_tagged = (if is_tagged then edge\<lparr>edge_flag := edge_flag edge OR ME_SHARP\<rparr> else edge)"

definition mesh_edges_sharp_tag ::
  "LoopSplitTaskDataCommon \<Rightarrow> bool \<Rightarrow> real \<Rightarrow> bool \<Rightarrow> LoopSplitTaskDataCommon" where
  "mesh_edges_sharp_tag data check_angle split_angle do_sharp_edges_tag =
     (let sharp_edges = (if do_sharp_edges_tag then replicate (length (data_edges data)) False
                         else []);
          split_angle_cos = (if check_angle then cos split_angle else - 1);
          (data', sharp_edges') =
             fold (sharp_tag_poly check_angle split_angle_cos do_sharp_edges_tag)
               [0 ..< length (data_polys data)] (data, sharp_edges)
      in if do_sharp_edges_tag
         then data'\<lparr>data_edges := map2 tag_edge (data_edges data') sharp_edges'\<rparr>
         else data')"

text \<open>
  Modelled from the spec: \<^verbatim>\<open>mesh_topology::build_loop_to_poly_map\<close> is not in the sources at
  hand; it is the spec's \<open>build_loop_to_polygon_map\<close>, \<open>array[loop] = polygon_index\<close>.
\<close>

definition build_loop_to_poly_map :: "MPoly list \<Rightarrow> nat \<Rightarrow> nat list" where
  "build_loop_to_poly_map polys loops_num =
     fold (\<lambda>poly_i m. fold (\<lambda>l m'. m'[l := poly_i]) (poly_corners (polys ! poly_i)) m)
       [0 ..< length polys] (replicate loops_num 0)"

text \<open>The function returns the edge array it was given, with the flags it has set.\<close>

definition BKE_edges_sharp_from_angle_set ::
  "float3 list \<Rightarrow> MEdge list \<Rightarrow> nat list \<Rightarrow> nat list \<Rightarrow> nat \<Rightarrow> MPoly list \<Rightarrow> float3 list \<Rightarrow>
   real \<Rightarrow> MEdge list" where
  "BKE_edges_sharp_from_angle_set positions medges corner_verts corner_edges numLoops mpolys
     polynors split_angle =
     (if split_angle \<ge> pi then medges
      else
        let edge_to_loops = replicate (length medges) (0, 0);
            loop_to_poly = build_loop_to_poly_map mpolys numLoops;
            common_data = \<lparr>data_lnors_spacearr = None, data_loopnors = [],
              data_clnors_data = [], data_positions = positions, data_edges = medges,
              data_corner_verts = corner_verts, data_corner_edges = corner_edges,
              data_polys = mpolys, data_edge_to_loops = edge_to_loops,
              data_loop_to_poly = loop_to_poly, data_polynors = polynors,
              data_vert_normals = []\<rparr>
        in data_edges (mesh_edges_sharp_tag common_data True split_angle True))"

section \<open>Loop-normal spaces\<close>

text \<open>\<^verbatim>\<open>BKE_lnor_space_create\<close>: a zeroed space from the arena; the result is its pointer.\<close>

definition zero_space :: MLoopNorSpace where
  "zero_space = \<lparr>vec_lnor = zero_v3, vec_ref = zero_v3, vec_ortho = zero_v3, ref_alpha = 0,
     ref_beta = 0, loops = [], flags = 0\<rparr>"

definition BKE_lnor_space_create :: "MLoopNorSpaceArray \<Rightarrow> MLoopNorSpaceArray \<times> nat" where
  "BKE_lnor_space_create lnors_spacearr =
     (lnors_spacearr\<lparr>spaces := spaces lnors_spacearr @ [zero_space],
                       spaces_num := spaces_num lnors_spacearr + 1\<rparr>,
      length (spaces lnors_spacearr))"

text \<open>
  \<^verbatim>\<open>BKE_lnor_spacearr_init\<close> for an array that has no \<^verbatim>\<open>lspacearr\<close> yet, as every caller in this
  file has it: one null pointer per corner, no space.
\<close>

definition BKE_lnor_spacearr_init :: "nat \<Rightarrow> MLoopNorSpaceArray" where
  "BKE_lnor_spacearr_init numLoops =
     \<lparr>lspacearr = replicate numLoops None, spaces = [], spaces_num = 0\<rparr>"

text \<open>
  \<^verbatim>\<open>BKE_lnor_space_define\<close>. The stack \<^verbatim>\<open>edge_vectors\<close> is a list with its top first, \<open>None\<close>
  when the pointer is null; the function empties it on both paths. The function returns
  the space as defined; \<open>vec_ref0\<close> and \<open>vec_other0\<close> are the arguments \<^verbatim>\<open>vec_ref\<close> and
  \<^verbatim>\<open>vec_other\<close> as passed in.
\<close>

definition BKE_lnor_space_define ::
  "MLoopNorSpace \<Rightarrow> float3 \<Rightarrow> float3 \<Rightarrow> float3 \<Rightarrow> float3 list option \<Rightarrow> MLoopNorSpace" where
  "BKE_lnor_space_define lnor_space lnor vec_ref0 vec_other0 edge_vectors =
     (let pi2 = pi * 2;
          dtp_ref = dot_v3v3 vec_ref0 lnor;
          dtp_other = dot_v3v3 vec_other0 lnor
      in if \<bar>dtp_ref\<bar> \<ge> LNOR_SPACE_TRIGO_THRESHOLD \<or> \<bar>dtp_other\<bar> \<ge> LNOR_SPACE_TRIGO_THRESHOLD
         then lnor_space\<lparr>ref_alpha := 0, ref_beta := 0\<rparr>
         else
           let alpha_ref =
                 (case edge_vectors of
                    Some vecs \<Rightarrow>
                      fold (\<lambda>vec alpha. alpha + saacos (dot_v3v3 vec lnor)) vecs 0
                        / real (length vecs)
                  | None \<Rightarrow>
                      (saacos (dot_v3v3 vec_ref0 lnor) + saacos (dot_v3v3 vec_other0 lnor)) / 2);
               ref = fst (normalize_v3_v3 (sub_v3_v3v3 vec_ref0 (mul_v3_v3fl lnor dtp_ref)));
               ortho = fst (normalize_v3_v3 (cross_v3_v3v3 lnor ref));
               other = fst (normalize_v3_v3
                              (sub_v3_v3v3 vec_other0 (mul_v3_v3fl lnor dtp_other)));
               dtp = dot_v3v3 ref other;
               beta_ref =
                 (if dtp < LNOR_SPACE_TRIGO_THRESHOLD
                  then let beta = saacos dtp
                       in if dot_v3v3 ortho other < 0 then pi2 - beta else beta
                  else pi2)
           in lnor_space\<lparr>vec_lnor := lnor, vec_ref := ref, vec_ortho := ortho,
                           ref_alpha := alpha_ref, ref_beta := beta_ref\<rparr>)"

text \<open>
  \<^verbatim>\<open>BKE_lnor_space_add_loop\<close> with \<^verbatim>\<open>bm_loop == nullptr\<close>: the corner points to the space; a
  single space holds the corner itself in \<^verbatim>\<open>loops\<close>, any other space gets the corner
  prepended to its list.
\<close>

definition BKE_lnor_space_add_loop ::
  "MLoopNorSpaceArray \<Rightarrow> nat \<Rightarrow> nat \<Rightarrow> bool \<Rightarrow> MLoopNorSpaceArray" where
  "BKE_lnor_space_add_loop lnors_spacearr lnor_space ml_index is_single =
     (let space = spaces lnors_spacearr ! lnor_space;
          space' = (if is_single
                    then space\<lparr>flags := flags space OR MLNOR_SPACE_IS_SINGLE,
                                 loops := [ml_index]\<rparr>
                    else space\<lparr>loops := ml_index # loops space\<rparr>)
      in lnors_spacearr\<lparr>lspacearr := (lspacearr lnors_spacearr)[ml_index := Some lnor_space],
                          spaces := (spaces lnors_spacearr)[lnor_space := space']\<rparr>)"

section \<open>Loop splitting: the tasks\<close>

text \<open>
  \<^verbatim>\<open>LoopSplitTaskData\<close>. \<^verbatim>\<open>lnor_space\<close> points into the arena, \<^verbatim>\<open>lnor\<close> into the loop
  normals (the index of the corner), \<^verbatim>\<open>e2l_prev\<close> into \<^verbatim>\<open>edge_to_loops\<close> (the index of the
  edge); a null pointer is \<open>None\<close>. \<^verbatim>\<open>ml_curr_index\<close> is an int: -1 tags the end of a block.
\<close>

record LoopSplitTaskData =
  task_lnor_space :: "nat option"
  task_lnor :: "nat option"
  task_ml_curr_index :: int
  task_ml_prev_index :: int
  task_e2l_prev :: "nat option"
  task_mp_index :: nat

definition LOOP_SPLIT_TASK_BLOCK_SIZE :: nat where
  "LOOP_SPLIT_TASK_BLOCK_SIZE = 1024"

text \<open>The other end of an edge, seen from the pivot vertex, as a unit vector.\<close>

definition edge_vector_from_pivot :: "float3 list \<Rightarrow> MEdge \<Rightarrow> nat \<Rightarrow> float3" where
  "edge_vector_from_pivot positions me mv_pivot_index =
     (let mv_pivot = positions ! mv_pivot_index;
          mv_2 = (if v1 me = mv_pivot_index then positions ! v2 me else positions ! v1 me)
      in fst (normalize_v3_v3 (sub_v3_v3v3 mv_2 mv_pivot)))"

definition loop_manifold_fan_around_vert_next ::
  "nat list \<Rightarrow> MPoly list \<Rightarrow> nat list \<Rightarrow> int \<times> int \<Rightarrow> nat \<Rightarrow> nat \<times> nat \<times> nat \<Rightarrow>
   nat \<times> nat \<times> nat" where
  "loop_manifold_fan_around_vert_next corner_verts polys loop_to_poly e2lfan_curr mv_pivot_index
     st =
     (case st of (mlfan_curr_index, mlfan_vert_index, mpfan_curr_index) \<Rightarrow>
        let fan_vert_curr = corner_verts ! mlfan_curr_index;
            mlfan_curr_index1 = nat (if fst e2lfan_curr = int mlfan_curr_index
                                     then snd e2lfan_curr else fst e2lfan_curr);
            mpfan_curr_index1 = loop_to_poly ! mlfan_curr_index1;
            fan_vert_next = corner_verts ! mlfan_curr_index1;
            mpfan_next = polys ! mpfan_curr_index1
        in if (fan_vert_curr = fan_vert_next \<and> fan_vert_curr = mv_pivot_index) \<or>
              (fan_vert_curr \<noteq> fan_vert_next \<and> fan_vert_curr \<noteq> mv_pivot_index)
           then
             (if int mlfan_curr_index1 - 1 < int (loopstart mpfan_next)
              then loopstart mpfan_next + totloop mpfan_next - 1
              else mlfan_curr_index1 - 1,
              mlfan_curr_index1, mpfan_curr_index1)
           else
             let next = (if mlfan_curr_index1 + 1 \<ge> loopstart mpfan_next + totloop mpfan_next
                         then loopstart mpfan_next else mlfan_curr_index1 + 1)
             in (next, next, mpfan_curr_index1))"

definition split_loop_nor_single_do ::
  "LoopSplitTaskDataCommon \<Rightarrow> LoopSplitTaskData \<Rightarrow> LoopSplitTaskDataCommon" where
  "split_loop_nor_single_do common_data data =
     (let ml_curr_index = nat (task_ml_curr_index data);
          ml_prev_index = nat (task_ml_curr_index data);
          mp_index = task_mp_index data;
          lnor_at = the (task_lnor data);
          lnor = data_polynors common_data ! mp_index;
          common1 = common_data\<lparr>data_loopnors := (data_loopnors common_data)[lnor_at := lnor]\<rparr>
      in case data_lnors_spacearr common_data of
           None \<Rightarrow> common1
         | Some lnors_spacearr \<Rightarrow>
             let mv_pivot_index = data_corner_verts common_data ! ml_curr_index;
                 me_curr = data_edges common_data ! (data_corner_edges common_data ! ml_curr_index);
                 me_prev = data_edges common_data ! (data_corner_edges common_data ! ml_prev_index);
                 vec_curr = edge_vector_from_pivot (data_positions common_data) me_curr
                              mv_pivot_index;
                 vec_prev = edge_vector_from_pivot (data_positions common_data) me_prev
                              mv_pivot_index;
                 sp = the (task_lnor_space data);
                 space = BKE_lnor_space_define (spaces lnors_spacearr ! sp) lnor vec_curr vec_prev
                           None;
                 arr1 = lnors_spacearr\<lparr>spaces := (spaces lnors_spacearr)[sp := space]\<rparr>;
                 arr2 = BKE_lnor_space_add_loop arr1 sp ml_curr_index True;
                 common2 = common1\<lparr>data_lnors_spacearr := Some arr2\<rparr>
             in if data_clnors_data common_data \<noteq> []
                then common2\<lparr>data_loopnors := (data_loopnors common1)
                       [lnor_at := BKE_lnor_space_custom_data_to_normal (spaces arr2 ! sp)
                                     (data_clnors_data common_data ! ml_curr_index)]\<rparr>
                else common2)"

section \<open>Loop splitting: the fan\<close>

text \<open>
  The local variables of \<^verbatim>\<open>split_loop_nor_fan_do\<close> that change while it walks the fan. The
  two small stacks hold pointers into \<^verbatim>\<open>loopnors\<close> and \<^verbatim>\<open>clnors_data\<close>: corner indices, top
  first. \<^verbatim>\<open>clnor_ref\<close> points to the custom normal of the first corner.
\<close>

record fan_state =
  fs_e2lfan_curr :: "int \<times> int"
  fs_mlfan_curr_index :: nat
  fs_mlfan_vert_index :: nat
  fs_mpfan_curr_index :: nat
  fs_vec_curr :: float3
  fs_vec_prev :: float3
  fs_lnor :: float3
  fs_clnors_avg :: "int \<times> int"
  fs_clnor_ref :: "nat option"
  fs_clnors_count :: nat
  fs_clnors_invalid :: bool
  fs_normal :: "nat list"
  fs_clnors :: "nat list"
  fs_lnors_spacearr :: "MLoopNorSpaceArray option"
  fs_edge_vectors :: "float3 list"

text \<open>
  The body of the \<^verbatim>\<open>while (true)\<close> loop up to its exit test: the edge vector of the current
  edge, the accumulation of the weighted face normal and of the custom normal data, the
  pushes, and the assignment of the space to the corner.
\<close>

definition fan_accumulate ::
  "LoopSplitTaskDataCommon \<Rightarrow> LoopSplitTaskData \<Rightarrow> fan_state \<Rightarrow> fan_state" where
  "fan_accumulate common_data data st =
     (let ml_curr_index = nat (task_ml_curr_index data);
          mv_pivot_index = data_corner_verts common_data ! ml_curr_index;
          me_org = data_corner_edges common_data ! ml_curr_index;
          me_curr = data_corner_edges common_data ! fs_mlfan_curr_index st;
          vec_curr = edge_vector_from_pivot (data_positions common_data)
                       (data_edges common_data ! me_curr) mv_pivot_index;
          fac = saacos (dot_v3v3 vec_curr (fs_vec_prev st));
          lnor = madd_v3_v3fl (fs_lnor st) (data_polynors common_data ! fs_mpfan_curr_index st)
                   fac;
          st1 = st\<lparr>fs_vec_curr := vec_curr, fs_lnor := lnor\<rparr>;
          st2 = (if data_clnors_data common_data \<noteq> []
                 then
                   let clnor = data_clnors_data common_data ! fs_mlfan_vert_index st;
                       clnor_ref = (case fs_clnor_ref st of
                                      None \<Rightarrow> clnor
                                    | Some r \<Rightarrow> data_clnors_data common_data ! r)
                   in st1\<lparr>fs_clnors_invalid :=
                            (if fs_clnors_count st \<noteq> 0
                             then fs_clnors_invalid st \<or> clnor_ref \<noteq> clnor
                             else fs_clnors_invalid st),
                          fs_clnor_ref :=
                            (if fs_clnors_count st \<noteq> 0 then fs_clnor_ref st
                             else Some (fs_mlfan_vert_index st)),
                          fs_clnors_avg := (fst (fs_clnors_avg st) + sint (fst clnor),
                                            snd (fs_clnors_avg st) + sint (snd clnor)),
                          fs_clnors_count := fs_clnors_count st + 1,
                          fs_clnors := fs_mlfan_vert_index st # fs_clnors st\<rparr>
                 else st1);
          st3 = st2\<lparr>fs_normal := fs_mlfan_vert_index st # fs_normal st\<rparr>
      in case fs_lnors_spacearr st of
           None \<Rightarrow> st3
         | Some lnors_spacearr \<Rightarrow>
             st3\<lparr>fs_lnors_spacearr :=
                    Some (BKE_lnor_space_add_loop lnors_spacearr (the (task_lnor_space data))
                            (fs_mlfan_vert_index st) False),
                  fs_edge_vectors :=
                    (if me_curr \<noteq> me_org then vec_curr # fs_edge_vectors st
                     else fs_edge_vectors st)\<rparr>)"

text \<open>The exit test of the loop: the current edge is sharp, or it is the edge of the start.\<close>

definition fan_finished ::
  "LoopSplitTaskDataCommon \<Rightarrow> LoopSplitTaskData \<Rightarrow> fan_state \<Rightarrow> bool" where
  "fan_finished common_data data st =
     (IS_EDGE_SHARP (fs_e2lfan_curr st) \<or>
      data_corner_edges common_data ! fs_mlfan_curr_index st
        = data_corner_edges common_data ! nat (task_ml_curr_index data))"

text \<open>The end of the loop body: \<^verbatim>\<open>vec_prev\<close> takes \<^verbatim>\<open>vec_curr\<close> and the walk moves on.\<close>

definition fan_advance ::
  "LoopSplitTaskDataCommon \<Rightarrow> LoopSplitTaskData \<Rightarrow> fan_state \<Rightarrow> fan_state" where
  "fan_advance common_data data st =
     (let mv_pivot_index = data_corner_verts common_data ! nat (task_ml_curr_index data);
          (mlfan_curr_index, mlfan_vert_index, mpfan_curr_index) =
             loop_manifold_fan_around_vert_next (data_corner_verts common_data)
               (data_polys common_data) (data_loop_to_poly common_data) (fs_e2lfan_curr st)
               mv_pivot_index
               (fs_mlfan_curr_index st, fs_mlfan_vert_index st, fs_mpfan_curr_index st)
      in st\<lparr>fs_vec_prev := fs_vec_curr st,
              fs_mlfan_curr_index := mlfan_curr_index,
              fs_mlfan_vert_index := mlfan_vert_index,
              fs_mpfan_curr_index := mpfan_curr_index,
              fs_e2lfan_curr := data_edge_to_loops common_data
                                  ! (data_corner_edges common_data ! mlfan_curr_index)\<rparr>)"

text \<open>
  The \<^verbatim>\<open>while (true)\<close> loop. It has no bound in the source; here it runs on fuel, and \<open>None\<close>
  says that the fuel ran out before the loop was left.
\<close>

fun fan_walk ::
  "nat \<Rightarrow> LoopSplitTaskDataCommon \<Rightarrow> LoopSplitTaskData \<Rightarrow> fan_state \<Rightarrow> fan_state option" where
  "fan_walk 0 common_data data st = None"
| "fan_walk (Suc fuel) common_data data st =
     (let st1 = fan_accumulate common_data data st
      in if fan_finished common_data data st1 then Some st1
         else fan_walk fuel common_data data (fan_advance common_data data st1))"

definition fan_init :: "LoopSplitTaskDataCommon \<Rightarrow> LoopSplitTaskData \<Rightarrow> fan_state" where
  "fan_init common_data data =
     (let ml_curr_index = nat (task_ml_curr_index data);
          mv_pivot_index = data_corner_verts common_data ! ml_curr_index;
          me_org = data_edges common_data ! (data_corner_edges common_data ! ml_curr_index);
          vec_org = edge_vector_from_pivot (data_positions common_data) me_org mv_pivot_index
      in \<lparr>fs_e2lfan_curr = data_edge_to_loops common_data ! the (task_e2l_prev data),
          fs_mlfan_curr_index = nat (task_ml_prev_index data),
          fs_mlfan_vert_index = ml_curr_index,
          fs_mpfan_curr_index = task_mp_index data,
          fs_vec_curr = zero_v3, fs_vec_prev = vec_org, fs_lnor = (0, 0, 0),
          fs_clnors_avg = (0, 0), fs_clnor_ref = None, fs_clnors_count = 0,
          fs_clnors_invalid = False, fs_normal = [], fs_clnors = [],
          fs_lnors_spacearr = data_lnors_spacearr common_data,
          fs_edge_vectors = (if data_lnors_spacearr common_data \<noteq> None then [vec_org]
                             else [])\<rparr>)"

text \<open>C integer division truncates towards zero.\<close>

definition c_int_div :: "int \<Rightarrow> int \<Rightarrow> int" where
  "c_int_div a b = sgn a * sgn b * (\<bar>a\<bar> div \<bar>b\<bar>)"

text \<open>
  What follows the loop: the sum is normalized; with a space array the space of the fan is
  defined (the vertex normal already in \<^verbatim>\<open>loopnors\<close> stands in for a zero sum) and the custom
  normal data, averaged over the fan when its corners disagree, is decoded into the normal;
  a normal of non-zero length is copied to every corner on the stack.
\<close>

definition fan_finish ::
  "LoopSplitTaskDataCommon \<Rightarrow> LoopSplitTaskData \<Rightarrow> fan_state \<Rightarrow> LoopSplitTaskDataCommon" where
  "fan_finish common_data data st =
     (let ml_curr_index = nat (task_ml_curr_index data);
          mv_pivot_index = data_corner_verts common_data ! ml_curr_index;
          me_org = data_edges common_data ! (data_corner_edges common_data ! ml_curr_index);
          vec_org = edge_vector_from_pivot (data_positions common_data) me_org mv_pivot_index;
          (lnor0, lnor_len0) = normalize_v3_v3 (fs_lnor st)
      in case fs_lnors_spacearr st of
           None \<Rightarrow>
             if lnor_len0 \<noteq> 0
             then common_data\<lparr>data_loopnors :=
                    fold (\<lambda>nor loopnors. loopnors[nor := lnor0]) (fs_normal st)
                      (data_loopnors common_data)\<rparr>
             else common_data
         | Some lnors_spacearr \<Rightarrow>
             let lnor1 = (if lnor_len0 = 0
                          then data_loopnors common_data ! fs_mlfan_vert_index st else lnor0);
                 sp = the (task_lnor_space data);
                 space = BKE_lnor_space_define (spaces lnors_spacearr ! sp) lnor1 vec_org
                           (fs_vec_curr st) (Some (fs_edge_vectors st));
                 arr = lnors_spacearr\<lparr>spaces := (spaces lnors_spacearr)[sp := space]\<rparr>;
                 clnors_data =
                   (if data_clnors_data common_data \<noteq> [] \<and> fs_clnors_invalid st
                    then
                      let avg = (c_int_div (fst (fs_clnors_avg st)) (int (fs_clnors_count st)),
                                 c_int_div (snd (fs_clnors_avg st)) (int (fs_clnors_count st)))
                      in fold (\<lambda>clnor cl. cl[clnor := (word_of_int (fst avg), word_of_int (snd avg))])
                           (fs_clnors st) (data_clnors_data common_data)
                    else data_clnors_data common_data);
                 lnor2 = (if data_clnors_data common_data \<noteq> []
                          then BKE_lnor_space_custom_data_to_normal space
                                 (clnors_data ! the (fs_clnor_ref st))
                          else lnor1)
             in common_data\<lparr>data_lnors_spacearr := Some arr,
                  data_clnors_data := clnors_data,
                  data_loopnors :=
                    fold (\<lambda>nor loopnors. loopnors[nor := lnor2]) (fs_normal st)
                      (data_loopnors common_data)\<rparr>)"

definition split_loop_nor_fan_do ::
  "nat \<Rightarrow> LoopSplitTaskDataCommon \<Rightarrow> LoopSplitTaskData \<Rightarrow> LoopSplitTaskDataCommon option" where
  "split_loop_nor_fan_do fuel common_data data =
     map_option (fan_finish common_data data)
       (fan_walk fuel common_data data (fan_init common_data data))"

definition loop_split_worker_do ::
  "nat \<Rightarrow> LoopSplitTaskDataCommon \<Rightarrow> LoopSplitTaskData \<Rightarrow> LoopSplitTaskDataCommon option" where
  "loop_split_worker_do fuel common_data data =
     (if task_e2l_prev data \<noteq> None then split_loop_nor_fan_do fuel common_data data
      else Some (split_loop_nor_single_do common_data data))"

section \<open>Loop splitting: the generator\<close>

text \<open>
  The \<^verbatim>\<open>while (true)\<close> loop of \<^verbatim>\<open>loop_split_generator_check_cyclic_smooth_fan\<close>, on fuel as
  above. The state is the walk position and \<^verbatim>\<open>skip_loops\<close>; the result is the answer of the
  function and \<^verbatim>\<open>skip_loops\<close> as it leaves it.
\<close>

fun check_cyclic_walk ::
  "nat \<Rightarrow> nat list \<Rightarrow> nat list \<Rightarrow> MPoly list \<Rightarrow> (int \<times> int) list \<Rightarrow> nat list \<Rightarrow> nat \<Rightarrow> nat \<Rightarrow>
   int \<times> int \<Rightarrow> nat \<times> nat \<times> nat \<Rightarrow> bool list \<Rightarrow> (bool \<times> bool list) option" where
  "check_cyclic_walk 0 corner_verts corner_edges mpolys edge_to_loops loop_to_poly
     mv_pivot_index ml_curr_index e2lfan_curr pos skip_loops = None"
| "check_cyclic_walk (Suc fuel) corner_verts corner_edges mpolys edge_to_loops loop_to_poly
     mv_pivot_index ml_curr_index e2lfan_curr pos skip_loops =
     (let pos1 = loop_manifold_fan_around_vert_next corner_verts mpolys loop_to_poly
                   e2lfan_curr mv_pivot_index pos;
          mlfan_curr_index = fst pos1;
          mlfan_vert_index = fst (snd pos1);
          e2lfan_curr1 = edge_to_loops ! (corner_edges ! mlfan_curr_index)
      in if IS_EDGE_SHARP e2lfan_curr1 then Some (False, skip_loops)
         else if skip_loops ! mlfan_vert_index
         then Some (mlfan_vert_index = ml_curr_index, skip_loops)
         else check_cyclic_walk fuel corner_verts corner_edges mpolys edge_to_loops loop_to_poly
                mv_pivot_index ml_curr_index e2lfan_curr1 pos1
                (skip_loops[mlfan_vert_index := True]))"

definition loop_split_generator_check_cyclic_smooth_fan ::
  "nat \<Rightarrow> nat list \<Rightarrow> nat list \<Rightarrow> MPoly list \<Rightarrow> (int \<times> int) list \<Rightarrow> nat list \<Rightarrow> int \<times> int \<Rightarrow>
   bool list \<Rightarrow> nat \<Rightarrow> nat \<Rightarrow> nat \<Rightarrow> (bool \<times> bool list) option" where
  "loop_split_generator_check_cyclic_smooth_fan fuel corner_verts corner_edges mpolys
     edge_to_loops loop_to_poly e2l_prev skip_loops ml_curr_index ml_prev_index mp_curr_index =
     (let mv_pivot_index = corner_verts ! ml_curr_index
      in if IS_EDGE_SHARP e2l_prev then Some (False, skip_loops)
         else check_cyclic_walk fuel corner_verts corner_edges mpolys edge_to_loops loop_to_poly
                mv_pivot_index ml_curr_index e2l_prev
                (ml_prev_index, ml_curr_index, mp_curr_index)
                (skip_loops[ml_curr_index := True]))"

text \<open>
  The state of \<^verbatim>\<open>loop_split_generator\<close>: the shared data, \<^verbatim>\<open>skip_loops\<close>, the block being
  filled with its fill index, and the blocks pushed to the pool so far.
\<close>

record generator_state =
  gen_common :: LoopSplitTaskDataCommon
  gen_skip_loops :: "bool list"
  gen_data_buff :: "LoopSplitTaskData list"
  gen_data_idx :: nat
  gen_pushed :: "LoopSplitTaskData list list"

text \<open>A zeroed task, as \<^verbatim>\<open>MEM_calloc_arrayN\<close> and \<^verbatim>\<open>memset\<close> leave it.\<close>

definition zero_task :: LoopSplitTaskData where
  "zero_task = \<lparr>task_lnor_space = None, task_lnor = None, task_ml_curr_index = 0,
     task_ml_prev_index = 0, task_e2l_prev = None, task_mp_index = 0\<rparr>"

text \<open>
  With a pool, the place for the next task: a fresh block when the fill index is 0; then
  the loop over the whole block that sets every \<^verbatim>\<open>ml_curr_index\<close> to -1, which the source runs
  for every task; the task is the entry at the fill index.
\<close>

definition pool_task_slot :: "LoopSplitTaskData list \<Rightarrow> nat \<Rightarrow> LoopSplitTaskData list" where
  "pool_task_slot data_buff data_idx =
     (let buff = (if data_idx = 0 then replicate LOOP_SPLIT_TASK_BLOCK_SIZE zero_task
                  else data_buff)
      in map (\<lambda>d. d\<lparr>task_ml_curr_index := - 1\<rparr>) buff)"

text \<open>The fields the generator sets in a task: a single corner, or a fan.\<close>

definition fill_task ::
  "LoopSplitTaskData \<Rightarrow> bool \<Rightarrow> nat \<Rightarrow> nat \<Rightarrow> nat \<Rightarrow> nat \<Rightarrow> nat option \<Rightarrow> LoopSplitTaskData" where
  "fill_task data is_single ml_curr_index ml_prev_index e2l_prev_edge mp_index lnor_space =
     (if is_single
      then data\<lparr>task_lnor := Some ml_curr_index, task_ml_curr_index := int ml_curr_index,
                task_mp_index := mp_index, task_lnor_space := lnor_space\<rparr>
      else data\<lparr>task_ml_curr_index := int ml_curr_index,
                task_ml_prev_index := int ml_prev_index,
                task_e2l_prev := Some e2l_prev_edge, task_mp_index := mp_index,
                task_lnor_space := lnor_space\<rparr>)"

text \<open>
  The body of the inner loop for one corner. Without a pool the task is run at once; with
  a pool it is stored, and a full block is pushed.
\<close>

definition generator_corner ::
  "nat \<Rightarrow> bool \<Rightarrow> nat \<Rightarrow> nat \<Rightarrow> nat \<Rightarrow> generator_state \<Rightarrow> generator_state option" where
  "generator_corner fuel pool mp_index ml_curr_index ml_prev_index gs =
     (let common_data = gen_common gs;
          e2l_curr = data_edge_to_loops common_data
                       ! (data_corner_edges common_data ! ml_curr_index);
          e2l_prev_edge = data_corner_edges common_data ! ml_prev_index;
          e2l_prev = data_edge_to_loops common_data ! e2l_prev_edge;
          checked =
            (if IS_EDGE_SHARP e2l_curr then Some (True, gen_skip_loops gs)
             else if gen_skip_loops gs ! ml_curr_index then Some (False, gen_skip_loops gs)
             else loop_split_generator_check_cyclic_smooth_fan fuel
                    (data_corner_verts common_data) (data_corner_edges common_data)
                    (data_polys common_data) (data_edge_to_loops common_data)
                    (data_loop_to_poly common_data) e2l_prev (gen_skip_loops gs)
                    ml_curr_index ml_prev_index mp_index)
      in case checked of
           None \<Rightarrow> None
         | Some (process, skip_loops) \<Rightarrow>
             if process = False then Some (gs\<lparr>gen_skip_loops := skip_loops\<rparr>)
             else
               let data_buff = (if pool then pool_task_slot (gen_data_buff gs) (gen_data_idx gs)
                                else gen_data_buff gs);
                   data0 = (if pool then data_buff ! gen_data_idx gs else zero_task);
                   created = map_option BKE_lnor_space_create (data_lnors_spacearr common_data);
                   common1 = common_data\<lparr>data_lnors_spacearr := map_option fst created\<rparr>;
                   data = fill_task data0 (IS_EDGE_SHARP e2l_curr \<and> IS_EDGE_SHARP e2l_prev)
                            ml_curr_index ml_prev_index e2l_prev_edge mp_index
                            (map_option snd created)
               in if pool
                  then
                    let buff1 = data_buff[gen_data_idx gs := data];
                        data_idx1 = gen_data_idx gs + 1
                    in if data_idx1 = LOOP_SPLIT_TASK_BLOCK_SIZE
                       then Some (gs\<lparr>gen_common := common1, gen_skip_loops := skip_loops,
                                     gen_data_buff := buff1, gen_data_idx := 0,
                                     gen_pushed := gen_pushed gs @ [buff1]\<rparr>)
                       else Some (gs\<lparr>gen_common := common1, gen_skip_loops := skip_loops,
                                     gen_data_buff := buff1, gen_data_idx := data_idx1\<rparr>)
                  else
                    map_option
                      (\<lambda>common2. gs\<lparr>gen_common := common2, gen_skip_loops := skip_loops\<rparr>)
                      (loop_split_worker_do fuel common1 data))"

text \<open>The inner loop over the corners of a polygon: \<^verbatim>\<open>ml_prev_index\<close> follows \<^verbatim>\<open>ml_curr_index\<close>.\<close>

fun generator_corners ::
  "nat \<Rightarrow> bool \<Rightarrow> nat \<Rightarrow> nat list \<Rightarrow> nat \<Rightarrow> generator_state \<Rightarrow> generator_state option" where
  "generator_corners fuel pool mp_index [] ml_prev_index gs = Some gs"
| "generator_corners fuel pool mp_index (ml_curr_index # rest) ml_prev_index gs =
     (case generator_corner fuel pool mp_index ml_curr_index ml_prev_index gs of
        None \<Rightarrow> None
      | Some gs1 \<Rightarrow> generator_corners fuel pool mp_index rest ml_curr_index gs1)"

fun generator_polys ::
  "nat \<Rightarrow> bool \<Rightarrow> nat list \<Rightarrow> generator_state \<Rightarrow> generator_state option" where
  "generator_polys fuel pool [] gs = Some gs"
| "generator_polys fuel pool (mp_index # rest) gs =
     (let poly = data_polys (gen_common gs) ! mp_index;
          ml_last_index = loopstart poly + totloop poly - 1
      in case generator_corners fuel pool mp_index (poly_corners poly) ml_last_index gs of
           None \<Rightarrow> None
         | Some gs1 \<Rightarrow> generator_polys fuel pool rest gs1)"

text \<open>
  \<^verbatim>\<open>loop_split_generator\<close>: the result is the shared data as the generator leaves it and the
  blocks it has pushed to the pool (none without a pool).
\<close>

definition loop_split_generator ::
  "nat \<Rightarrow> bool \<Rightarrow> LoopSplitTaskDataCommon \<Rightarrow>
   (LoopSplitTaskDataCommon \<times> LoopSplitTaskData list list) option" where
  "loop_split_generator fuel pool common_data =
     (let gs0 = \<lparr>gen_common = common_data,
                 gen_skip_loops = replicate (length (data_corner_verts common_data)) False,
                 gen_data_buff = [], gen_data_idx = 0, gen_pushed = []\<rparr>
      in case generator_polys fuel pool [0 ..< length (data_polys common_data)] gs0 of
           None \<Rightarrow> None
         | Some gs \<Rightarrow>
             Some (gen_common gs,
                   if pool \<and> gen_data_idx gs \<noteq> 0 then gen_pushed gs @ [gen_data_buff gs]
                   else gen_pushed gs))"

text \<open>
  \<^verbatim>\<open>loop_split_worker\<close>: the tasks of a block are run in order, up to the first one whose
  \<^verbatim>\<open>ml_curr_index\<close> is -1.
\<close>

definition worker_tasks :: "LoopSplitTaskData list \<Rightarrow> LoopSplitTaskData list" where
  "worker_tasks block = takeWhile (\<lambda>data. task_ml_curr_index data \<noteq> - 1) block"

fun run_tasks ::
  "nat \<Rightarrow> LoopSplitTaskData list \<Rightarrow> LoopSplitTaskDataCommon \<Rightarrow> LoopSplitTaskDataCommon option" where
  "run_tasks fuel [] common_data = Some common_data"
| "run_tasks fuel (data # rest) common_data =
     (case loop_split_worker_do fuel common_data data of
        None \<Rightarrow> None
      | Some common1 \<Rightarrow> run_tasks fuel rest common1)"

definition loop_split_worker ::
  "nat \<Rightarrow> LoopSplitTaskData list \<Rightarrow> LoopSplitTaskDataCommon \<Rightarrow> LoopSplitTaskDataCommon option" where
  "loop_split_worker fuel block common_data = run_tasks fuel (worker_tasks block) common_data"

text \<open>\<^verbatim>\<open>BLI_task_pool_work_and_wait\<close>, with the blocks run one after the other as pushed.\<close>

fun pool_work_and_wait ::
  "nat \<Rightarrow> LoopSplitTaskData list list \<Rightarrow> LoopSplitTaskDataCommon \<Rightarrow>
   LoopSplitTaskDataCommon option" where
  "pool_work_and_wait fuel [] common_data = Some common_data"
| "pool_work_and_wait fuel (block # rest) common_data =
     (case loop_split_worker fuel block common_data of
        None \<Rightarrow> None
      | Some common1 \<Rightarrow> pool_work_and_wait fuel rest common1)"

text \<open>
  \<^verbatim>\<open>BKE_mesh_normals_loop_split\<close>. The arrays it writes are results: the loop normals, the
  space array when one is asked for (\<open>want_spacearr\<close>) and the custom normal data when given.
  \<open>None\<close> says that a fan walk ran out of fuel.
\<close>

definition loop_split_simple :: "nat list \<Rightarrow> MPoly list \<Rightarrow> float3 list \<Rightarrow> float3 list \<Rightarrow>
   float3 list \<Rightarrow> float3 list" where
  "loop_split_simple corner_verts mpolys polynors vert_normals r_loopnors =
     fold (\<lambda>mp_index loopnors.
             fold (\<lambda>ml_index ln.
                     ln[ml_index := (if poly_is_smooth (mpolys ! mp_index) = False
                                     then polynors ! mp_index
                                     else vert_normals ! (corner_verts ! ml_index))])
               (poly_corners (mpolys ! mp_index)) loopnors)
       [0 ..< length mpolys] r_loopnors"

definition BKE_mesh_normals_loop_split ::
  "nat \<Rightarrow> float3 list \<Rightarrow> float3 list \<Rightarrow> MEdge list \<Rightarrow> nat list \<Rightarrow> nat list \<Rightarrow> float3 list \<Rightarrow>
   MPoly list \<Rightarrow> float3 list \<Rightarrow> bool \<Rightarrow> real \<Rightarrow> nat list option \<Rightarrow> bool \<Rightarrow> short2 list option \<Rightarrow>
   (float3 list \<times> MLoopNorSpaceArray option \<times> short2 list option) option" where
  "BKE_mesh_normals_loop_split fuel positions vert_normals medges corner_verts corner_edges
     r_loopnors mpolys polynors use_split_normals split_angle loop_to_poly_map want_spacearr
     clnors_data =
     (if use_split_normals = False
      then Some (loop_split_simple corner_verts mpolys polynors vert_normals r_loopnors,
                 None, clnors_data)
      else
        let numLoops = length corner_verts;
            edge_to_loops = replicate (length medges) (0, 0);
            loop_to_poly = (case loop_to_poly_map of
                              Some m \<Rightarrow> m
                            | None \<Rightarrow> build_loop_to_poly_map mpolys numLoops);
            check_angle = (split_angle < pi \<and> clnors_data = None);
            lnors_spacearr = (if want_spacearr \<or> clnors_data \<noteq> None
                              then Some (BKE_lnor_spacearr_init numLoops) else None);
            common_data = \<lparr>data_lnors_spacearr = lnors_spacearr, data_loopnors = r_loopnors,
              data_clnors_data = (case clnors_data of None \<Rightarrow> [] | Some c \<Rightarrow> c),
              data_positions = positions, data_edges = medges,
              data_corner_verts = corner_verts, data_corner_edges = corner_edges,
              data_polys = mpolys, data_edge_to_loops = edge_to_loops,
              data_loop_to_poly = loop_to_poly, data_polynors = polynors,
              data_vert_normals = vert_normals\<rparr>;
            common1 = mesh_edges_sharp_tag common_data check_angle split_angle False;
            pool = (numLoops \<ge> LOOP_SPLIT_TASK_BLOCK_SIZE * 8);
            done = (case loop_split_generator fuel pool common1 of
                      None \<Rightarrow> None
                    | Some (common2, blocks) \<Rightarrow> pool_work_and_wait fuel blocks common2)
        in map_option
             (\<lambda>common3. (data_loopnors common3,
                          if want_spacearr then data_lnors_spacearr common3 else None,
                          map_option (\<lambda>c. data_clnors_data common3) clnors_data))
             done)"


section \<open>Custom normals: the final encoding pass\<close>

text \<open>
  The last loop of \<^verbatim>\<open>mesh_normals_loop_custom_set\<close>, which converts the object-space custom
  normals to codes in the spaces of the second split. Its state is \<^verbatim>\<open>done_loops\<close> and
  \<^verbatim>\<open>r_clnors_data\<close>. The custom normal of a corner is that of its vertex with
  \<^verbatim>\<open>use_vertices\<close>.
\<close>

definition custom_nor_index :: "bool \<Rightarrow> nat list \<Rightarrow> nat \<Rightarrow> nat" where
  "custom_nor_index use_vertices corner_verts lidx =
     (if use_vertices then corner_verts ! lidx else lidx)"

text \<open>
  The first \<^verbatim>\<open>while (loops)\<close> of the fan branch: the count, the sum of the custom normals,
  the stack \<^verbatim>\<open>clnors_data\<close> of the slots pushed (top first) and \<^verbatim>\<open>done_loops\<close>.
\<close>

definition custom_fan_accumulate ::
  "nat list \<Rightarrow> float3 list \<Rightarrow> bool \<Rightarrow> nat list \<Rightarrow> bool list \<Rightarrow>
   nat \<times> float3 \<times> nat list \<times> bool list" where
  "custom_fan_accumulate corner_verts r_custom_loopnors use_vertices loops0 done_loops =
     fold (\<lambda>lidx (avg_nor_count, avg_nor, clnors_data, done_loops1).
             (avg_nor_count + 1,
              add_v3_v3 avg_nor
                (r_custom_loopnors ! custom_nor_index use_vertices corner_verts lidx),
              lidx # clnors_data,
              done_loops1[lidx := False]))
       loops0 (0, zero_v3, [], done_loops)"

text \<open>
  The body of the loop for the corner \<open>i\<close>. In the fan branch the average is encoded once
  into \<^verbatim>\<open>clnor_data_tmp\<close>, which the second \<^verbatim>\<open>while\<close> copies to every slot popped from the
  stack. (With an empty list the source divides by zero; the division of the reals gives 0
  there.)
\<close>

definition custom_encode_corner ::
  "MLoopNorSpaceArray \<Rightarrow> nat list \<Rightarrow> float3 list \<Rightarrow> bool \<Rightarrow> nat \<Rightarrow>
   bool list \<times> short2 list \<Rightarrow> bool list \<times> short2 list" where
  "custom_encode_corner lnors_spacearr corner_verts r_custom_loopnors use_vertices i st =
     (let done_loops = fst st; r_clnors_data = snd st
      in case lspacearr lnors_spacearr ! i of
           None \<Rightarrow> (done_loops[i := False], r_clnors_data)
         | Some sp \<Rightarrow>
             if done_loops ! i = False then st
             else
               let lnor_space = spaces lnors_spacearr ! sp
               in if flags lnor_space AND MLNOR_SPACE_IS_SINGLE \<noteq> 0
                  then
                    let nor = r_custom_loopnors ! custom_nor_index use_vertices corner_verts i
                    in (done_loops[i := False],
                        r_clnors_data[i := BKE_lnor_space_custom_normal_to_data lnor_space nor])
                  else
                    let acc = custom_fan_accumulate corner_verts r_custom_loopnors use_vertices
                                (loops lnor_space) done_loops;
                        avg_nor_count = fst acc;
                        avg_nor = mul_v3_v3fl (fst (snd acc)) (1 / real avg_nor_count);
                        clnor_data_tmp = BKE_lnor_space_custom_normal_to_data lnor_space avg_nor
                    in (snd (snd (snd acc)),
                        fold (\<lambda>clnor_data clnors. clnors[clnor_data := clnor_data_tmp])
                          (fst (snd (snd acc))) r_clnors_data))"

definition custom_encode_pass ::
  "MLoopNorSpaceArray \<Rightarrow> nat list \<Rightarrow> float3 list \<Rightarrow> bool \<Rightarrow> nat \<Rightarrow>
   bool list \<times> short2 list \<Rightarrow> bool list \<times> short2 list" where
  "custom_encode_pass lnors_spacearr corner_verts r_custom_loopnors use_vertices numLoops st =
     fold (custom_encode_corner lnors_spacearr corner_verts r_custom_loopnors use_vertices)
       [0 ..< numLoops] st"

text \<open>
  The specification's side: the average of a list of normals, component by component, and
  the space array as the split leaves it: a corner points to a space of the arena and, when
  the space is a fan, is in its list; every corner in the list of a fan is a corner of the
  mesh and points to that fan.
\<close>

definition spec_average_v3 :: "float3 list \<Rightarrow> float3" where
  "spec_average_v3 nors =
     (sum_list (map fst nors) / real (length nors),
      sum_list (map (\<lambda>nor. fst (snd nor)) nors) / real (length nors),
      sum_list (map (\<lambda>nor. snd (snd nor)) nors) / real (length nors))"

definition space_is_fan :: "MLoopNorSpace \<Rightarrow> bool" where
  "space_is_fan lnor_space = (flags lnor_space AND MLNOR_SPACE_IS_SINGLE = 0)"

definition lnor_spaces_consistent :: "MLoopNorSpaceArray \<Rightarrow> nat \<Rightarrow> bool" where
  "lnor_spaces_consistent lnors_spacearr numLoops =
     ((\<forall>l \<in> {0 ..< numLoops}.
         case lspacearr lnors_spacearr ! l of
           None \<Rightarrow> True
         | Some sp \<Rightarrow> sp < length (spaces lnors_spacearr)
             \<and> (space_is_fan (spaces lnors_spacearr ! sp)
                  \<longrightarrow> l \<in> set (loops (spaces lnors_spacearr ! sp))))
      \<and> (\<forall>sp \<in> {0 ..< length (spaces lnors_spacearr)}.
            space_is_fan (spaces lnors_spacearr ! sp)
            \<longrightarrow> (\<forall>l \<in> set (loops (spaces lnors_spacearr ! sp)).
                   l < numLoops \<and> lspacearr lnors_spacearr ! l = Some sp)))"

section \<open>Auxiliary notions for the proofs\<close>

text \<open>
  Newell's sum over vertices that all lie on one line \<open>p + t * d\<close> telescopes: each cross term
  is the difference of a potential at the two parameters.
\<close>

fun newell_potential :: "float3 \<Rightarrow> float3 \<Rightarrow> real \<Rightarrow> float3" where
  "newell_potential (p0, p1, p2) (d0, d1, d2) t =
     (2 * p2 * d1 * t + d1 * d2 * t * t, 2 * p0 * d2 * t + d2 * d0 * t * t,
      2 * p1 * d0 * t + d0 * d1 * t * t)"

text \<open>
  The scan of \<^verbatim>\<open>mesh_edges_sharp_tag\<close> visits the corners polygon by polygon; \<open>scan_corners\<close>
  lists them in that order, each with the index of its polygon, and \<open>sharp_tag_scan\<close> runs
  the loop body over such a list. \<open>entry_step\<close> is what one corner does to the entry and to the
  bit of its own edge.
\<close>

definition scan_corners :: "MPoly list \<Rightarrow> (nat \<times> nat) list" where
  "scan_corners polys =
     concat (map (\<lambda>mp_index. map (Pair mp_index) (poly_corners (polys ! mp_index)))
       [0 ..< length polys])"

definition sharp_tag_scan ::
  "bool \<Rightarrow> real \<Rightarrow> bool \<Rightarrow> (nat \<times> nat) list \<Rightarrow> LoopSplitTaskDataCommon \<times> bool list \<Rightarrow>
   LoopSplitTaskDataCommon \<times> bool list" where
  "sharp_tag_scan check_angle split_angle_cos do_tag cs st =
     fold (\<lambda>c. sharp_tag_corner check_angle split_angle_cos do_tag (fst c) (snd c)) cs st"

definition same_mesh :: "LoopSplitTaskDataCommon \<Rightarrow> LoopSplitTaskDataCommon \<Rightarrow> bool" where
  "same_mesh d d' =
     (data_polys d = data_polys d' \<and> data_corner_verts d = data_corner_verts d' \<and>
      data_corner_edges d = data_corner_edges d' \<and> data_edges d = data_edges d' \<and>
      data_polynors d = data_polynors d' \<and> data_loop_to_poly d = data_loop_to_poly d' \<and>
      data_vert_normals d = data_vert_normals d' \<and>
      length (data_edge_to_loops d) = length (data_edge_to_loops d'))"

definition entry_step ::
  "LoopSplitTaskDataCommon \<Rightarrow> bool \<Rightarrow> real \<Rightarrow> bool \<Rightarrow> nat \<times> nat \<Rightarrow> (int \<times> int) \<times> bool \<Rightarrow>
   (int \<times> int) \<times> bool" where
  "entry_step data check_angle split_angle_cos do_tag c eb =
     (let (e2l', t) = sharp_tag_e2l data check_angle split_angle_cos do_tag (fst c) (snd c) (fst eb)
      in (e2l', case t of None \<Rightarrow> snd eb | Some v \<Rightarrow> v))"

definition second_corner_sharp ::
  "LoopSplitTaskDataCommon \<Rightarrow> bool \<Rightarrow> real \<Rightarrow> nat \<Rightarrow> nat \<Rightarrow> nat \<Rightarrow> bool" where
  "second_corner_sharp d ca sac ml1 mp ml =
     (poly_is_smooth (data_polys d ! mp) = False \<or>
      edge_is_sharp (data_edges d ! (data_corner_edges d ! ml)) \<or>
      data_corner_verts d ! ml = data_corner_verts d ! ml1 \<or>
      (ca \<and> dot_v3v3 (data_polynors d ! (data_loop_to_poly d ! ml1)) (data_polynors d ! mp) < sac))"

definition resolved :: "int \<times> int \<Rightarrow> bool" where
  "resolved e2l = ((fst e2l OR snd e2l) \<noteq> 0 \<and> snd e2l \<noteq> INDEX_UNSET)"

definition angle_tagged ::
  "MPoly list \<Rightarrow> nat list \<Rightarrow> nat list \<Rightarrow> float3 list \<Rightarrow> real \<Rightarrow> nat \<Rightarrow> bool" where
  "angle_tagged mpolys corner_edges loop_to_poly polynors split_angle e =
     (case filter (\<lambda>c. corner_edges ! snd c = e) (scan_corners mpolys) of
        c1 # c2 # rest \<Rightarrow>
          poly_is_smooth (mpolys ! fst c1) \<and>
          dot_v3v3 (polynors ! (loop_to_poly ! snd c1)) (polynors ! fst c2) < cos split_angle
      | _ \<Rightarrow> False)"

text \<open>
  The fan of a task by its topology alone. The walk of \<^verbatim>\<open>split_loop_nor_fan_do\<close> goes where
  \<^verbatim>\<open>e2lfan_curr\<close>, \<^verbatim>\<open>mlfan_curr_index\<close>, \<^verbatim>\<open>mlfan_vert_index\<close> and \<^verbatim>\<open>mpfan_curr_index\<close> take it;
  \<open>fan_pos_init\<close> is their value before the loop, \<open>fan_pos_finished\<close> the exit test of the loop
  and \<open>fan_pos_next\<close> the step at the end of its body. \<open>fan_corners\<close> lists the corners
  \<^verbatim>\<open>mlfan_vert_index\<close> that the walk visits, the first one first; it is \<open>None\<close> when the walk has
  not ended after \<open>n\<close> corners.
\<close>

type_synonym fan_pos = "(int \<times> int) \<times> nat \<times> nat \<times> nat"

definition fan_pos_of :: "fan_state \<Rightarrow> fan_pos" where
  "fan_pos_of st =
     (fs_e2lfan_curr st, fs_mlfan_curr_index st, fs_mlfan_vert_index st, fs_mpfan_curr_index st)"

definition fan_pos_init :: "LoopSplitTaskDataCommon \<Rightarrow> LoopSplitTaskData \<Rightarrow> fan_pos" where
  "fan_pos_init common_data data =
     (data_edge_to_loops common_data ! the (task_e2l_prev data),
      nat (task_ml_prev_index data), nat (task_ml_curr_index data), task_mp_index data)"

definition fan_pos_finished ::
  "LoopSplitTaskDataCommon \<Rightarrow> LoopSplitTaskData \<Rightarrow> fan_pos \<Rightarrow> bool" where
  "fan_pos_finished common_data data pos =
     (case pos of (e2lfan_curr, mlfan_curr_index, mlfan_vert_index, mpfan_curr_index) \<Rightarrow>
        IS_EDGE_SHARP e2lfan_curr \<or>
        data_corner_edges common_data ! mlfan_curr_index
          = data_corner_edges common_data ! nat (task_ml_curr_index data))"

definition fan_pos_next ::
  "LoopSplitTaskDataCommon \<Rightarrow> LoopSplitTaskData \<Rightarrow> fan_pos \<Rightarrow> fan_pos" where
  "fan_pos_next common_data data pos =
     (case pos of (e2lfan_curr, mlfan_curr_index, mlfan_vert_index, mpfan_curr_index) \<Rightarrow>
        let mv_pivot_index = data_corner_verts common_data ! nat (task_ml_curr_index data);
            (mlfan_curr_index1, mlfan_vert_index1, mpfan_curr_index1) =
               loop_manifold_fan_around_vert_next (data_corner_verts common_data)
                 (data_polys common_data) (data_loop_to_poly common_data) e2lfan_curr
                 mv_pivot_index (mlfan_curr_index, mlfan_vert_index, mpfan_curr_index)
        in (data_edge_to_loops common_data
              ! (data_corner_edges common_data ! mlfan_curr_index1),
            mlfan_curr_index1, mlfan_vert_index1, mpfan_curr_index1))"

fun fan_corners_walk ::
  "nat \<Rightarrow> LoopSplitTaskDataCommon \<Rightarrow> LoopSplitTaskData \<Rightarrow> fan_pos \<Rightarrow> nat list option" where
  "fan_corners_walk 0 common_data data pos = None"
| "fan_corners_walk (Suc n) common_data data pos =
     (if fan_pos_finished common_data data pos then Some [fst (snd (snd pos))]
      else map_option (Cons (fst (snd (snd pos))))
             (fan_corners_walk n common_data data (fan_pos_next common_data data pos)))"

definition fan_corners ::
  "nat \<Rightarrow> LoopSplitTaskDataCommon \<Rightarrow> LoopSplitTaskData \<Rightarrow> nat list option" where
  "fan_corners n common_data data =
     fan_corners_walk n common_data data (fan_pos_init common_data data)"


text \<open>
  The state of the generator with a pool, as the loop over the whole block leaves it: in the
  block being filled only the entry filled last can have an \<^verbatim>\<open>ml_curr_index\<close> other than -1,
  and every block already pushed starts with an ended entry.
\<close>

definition pool_blocks_inv ::
  "LoopSplitTaskData list \<Rightarrow> nat \<Rightarrow> LoopSplitTaskData list list \<Rightarrow> bool" where
  "pool_blocks_inv data_buff data_idx pushed =
     (data_idx < LOOP_SPLIT_TASK_BLOCK_SIZE
      \<and> (data_idx = 0 \<or>
          (length data_buff = LOOP_SPLIT_TASK_BLOCK_SIZE
           \<and> (\<forall>i < LOOP_SPLIT_TASK_BLOCK_SIZE.
                 i = data_idx - 1 \<or> task_ml_curr_index (data_buff ! i) = - 1)))
      \<and> (\<forall>b \<in> set pushed. worker_tasks b = []))"

definition pool_inv :: "generator_state \<Rightarrow> bool" where
  "pool_inv gs = pool_blocks_inv (gen_data_buff gs) (gen_data_idx gs) (gen_pushed gs)"


text \<open>
  The code of a fan as the specification has it, and the state of the encoding pass seen
  from one fan when the corners below \<open>k\<close> are done: as long as no corner of the fan has
  come, all its corners are still marked; afterwards none is, and all hold the fan's code.
\<close>

definition spec_fan_code ::
  "MLoopNorSpaceArray \<Rightarrow> nat list \<Rightarrow> float3 list \<Rightarrow> bool \<Rightarrow> nat \<Rightarrow> short2" where
  "spec_fan_code lnors_spacearr corner_verts r_custom_loopnors use_vertices sp =
     BKE_lnor_space_custom_normal_to_data (spaces lnors_spacearr ! sp)
       (spec_average_v3
          (map (\<lambda>lidx. r_custom_loopnors ! custom_nor_index use_vertices corner_verts lidx)
             (loops (spaces lnors_spacearr ! sp))))"

definition fan_encoded ::
  "MLoopNorSpaceArray \<Rightarrow> short2 \<Rightarrow> nat \<Rightarrow> nat \<Rightarrow> nat \<Rightarrow> bool list \<times> short2 list \<Rightarrow> bool" where
  "fan_encoded lnors_spacearr code numLoops sp k st =
     (length (fst st) = numLoops \<and> length (snd st) = numLoops
      \<and> (if \<exists>j < k. lspacearr lnors_spacearr ! j = Some sp
         then \<forall>l \<in> set (loops (spaces lnors_spacearr ! sp)).
                fst st ! l = False \<and> snd st ! l = code
         else \<forall>l \<in> set (loops (spaces lnors_spacearr ! sp)). fst st ! l))"


text \<open>
  For the round trip through the codec: the angle between two vectors; a space with the
  frame that \<^verbatim>\<open>BKE_lnor_space_define\<close> builds (unit axis, unit reference orthogonal to it, their
  cross product as third axis, reference angles in range); the encoder's \<^verbatim>\<open>vec\<close> with the length
  \<^verbatim>\<open>normalize_v3\<close> returns; the factor the encoder makes of an angle and the angle the decoder makes of a factor; and the vector with the
  angles \<open>a\<close> from the axis and \<open>b\<close> around it.
\<close>

definition angular_deviation :: "float3 \<Rightarrow> float3 \<Rightarrow> real" where
  "angular_deviation a b = arccos (dot_v3v3 a b / (sqrt (dot_v3v3 a a) * sqrt (dot_v3v3 b b)))"

definition lnor_round_trip :: "MLoopNorSpace \<Rightarrow> float3 \<Rightarrow> float3" where
  "lnor_round_trip lnor_space custom_lnor =
     BKE_lnor_space_custom_data_to_normal lnor_space
       (BKE_lnor_space_custom_normal_to_data lnor_space custom_lnor)"

definition lnor_space_frame :: "MLoopNorSpace \<Rightarrow> bool" where
  "lnor_space_frame lnor_space =
     (dot_v3v3 (vec_lnor lnor_space) (vec_lnor lnor_space) = 1
      \<and> dot_v3v3 (vec_ref lnor_space) (vec_ref lnor_space) = 1
      \<and> dot_v3v3 (vec_lnor lnor_space) (vec_ref lnor_space) = 0
      \<and> vec_ortho lnor_space = cross_v3_v3v3 (vec_lnor lnor_space) (vec_ref lnor_space)
      \<and> 0 < ref_alpha lnor_space \<and> ref_alpha lnor_space \<le> pi
      \<and> 0 < ref_beta lnor_space \<and> ref_beta lnor_space \<le> 2 * pi)"

definition encoder_vec :: "MLoopNorSpace \<Rightarrow> float3 \<Rightarrow> float3 \<times> real" where
  "encoder_vec lnor_space custom_lnor =
     normalize_v3_v3
       (add_v3_v3
          (mul_v3_v3fl (vec_lnor lnor_space) (- dot_v3v3 (vec_lnor lnor_space) custom_lnor))
          custom_lnor)"

definition coded_factor :: "real \<Rightarrow> real \<Rightarrow> real" where
  "coded_factor ref angle =
     (if angle > ref then - (2 * pi - angle) / (2 * pi - ref) else angle / ref)"

definition decoded_angle :: "real \<Rightarrow> real \<Rightarrow> real" where
  "decoded_angle ref fac = (if fac > 0 then ref else 2 * pi - ref) * fac"

definition frame_vector :: "MLoopNorSpace \<Rightarrow> real \<Rightarrow> real \<Rightarrow> float3" where
  "frame_vector lnor_space a b =
     madd_v3_v3fl
       (madd_v3_v3fl (mul_v3_v3fl (vec_lnor lnor_space) (cos a)) (vec_ref lnor_space)
          (sin a * cos b))
       (vec_ortho lnor_space) (sin a * sin b)"

subsection \<open>Concrete spaces and normals used below\<close>

definition unit_space :: MLoopNorSpace where
  "unit_space = \<lparr>vec_lnor = (0, 0, 1), vec_ref = (1, 0, 0), vec_ortho = (0, 1, 0),
     ref_alpha = 1, ref_beta = 1, loops = [], flags = 0\<rparr>"

text \<open>
  The space that \<^verbatim>\<open>BKE_lnor_space_define\<close> leaves when the first edge direction is the normal
  itself: it gives up and zeroes both reference angles of the space it was given.
\<close>

definition collapsed_space :: MLoopNorSpace where
  "collapsed_space = BKE_lnor_space_define zero_space (0, 0, 1) (0, 0, 1) (0, 1, 0) None"

text \<open>A unit vector about \<open>1.4 * 10\<^sup>-\<^sup>4\<close> radians away from the axis \<open>(0, 0, 1)\<close>.\<close>

definition near_lnor :: float3 where
  "near_lnor = (40002 / 400040003, 40002 / 400040003, 400039999 / 400040003)"

text \<open>
  The space that \<^verbatim>\<open>BKE_lnor_space_define\<close> builds for the normal \<open>(0, 0, 1)\<close> of a corner between
  the edge directions \<open>(1, 0, 0)\<close> and \<open>(0, 1, 0)\<close>, and a unit vector in the plane of these
  two, about 0.014 radians away from the first, and a unit vector between the axis and the
  second.
\<close>

definition quarter_space :: MLoopNorSpace where
  "quarter_space = BKE_lnor_space_define zero_space (0, 0, 1) (1, 0, 0) (0, 1, 0) None"

definition near_ref :: float3 where
  "near_ref = (20163 / 20165, 284 / 20165, 0)"

definition tilted_lnor :: float3 where
  "tilted_lnor = (0, 3 / 5, 4 / 5)"

text \<open>
  A vector as a normalized float vector is: every component is a float, the squared length is
  \<open>1 + 2\<^sup>-\<^sup>2\<^sup>4\<close>, which rounds to \<open>1\<close>.
\<close>

definition float_unit_lnor :: float3 where
  "float_unit_lnor = (0, 1 / 4096, 1)"

text \<open>
  Two separate triangles, the second one with corners 3, 4, 5 on vertices 3, 4, 5 and a
  right angle at vertex 3; and a triangle whose three vertices lie on one line.
\<close>

definition two_tris_positions :: "float3 list" where
  "two_tris_positions = [(0, 0, 0), (1, 0, 0), (0, 1, 0), (0, 0, 5), (1, 0, 5), (0, 1, 5)]"

definition two_tris_polys :: "MPoly list" where
  "two_tris_polys = [\<lparr>loopstart = 0, totloop = 3, poly_flag = 0\<rparr>,
                     \<lparr>loopstart = 3, totloop = 3, poly_flag = 0\<rparr>]"

definition two_tris_corner_verts :: "nat list" where
  "two_tris_corner_verts = [0, 1, 2, 3, 4, 5]"

definition flat_tri_positions :: "float3 list" where
  "flat_tri_positions = [(0, 0, 0), (1, 0, 0), (2, 0, 0)]"

definition flat_tri_poly :: MPoly where
  "flat_tri_poly = \<lparr>loopstart = 0, totloop = 3, poly_flag = 0\<rparr>"

text \<open>
  Two smooth triangles hinged on the edge between vertices 1 and 2: corners 0, 1, 2 on
  vertices 0, 1, 2 and corners 3, 4, 5 on vertices 2, 1, 3. Edge 1 is the shared edge; the
  two face normals are perpendicular.
\<close>

definition hinge_polys :: "MPoly list" where
  "hinge_polys = [\<lparr>loopstart = 0, totloop = 3, poly_flag = 1\<rparr>,
                  \<lparr>loopstart = 3, totloop = 3, poly_flag = 1\<rparr>]"

text \<open>The same hinge with the second, or the first, triangle flat.\<close>

definition hinge_flat_second_polys :: "MPoly list" where
  "hinge_flat_second_polys = [\<lparr>loopstart = 0, totloop = 3, poly_flag = 1\<rparr>,
                              \<lparr>loopstart = 3, totloop = 3, poly_flag = 0\<rparr>]"

definition hinge_flat_first_polys :: "MPoly list" where
  "hinge_flat_first_polys = [\<lparr>loopstart = 0, totloop = 3, poly_flag = 0\<rparr>,
                             \<lparr>loopstart = 3, totloop = 3, poly_flag = 1\<rparr>]"

definition hinge_corner_verts :: "nat list" where
  "hinge_corner_verts = [0, 1, 2, 2, 1, 3]"

definition hinge_corner_edges :: "nat list" where
  "hinge_corner_edges = [0, 1, 2, 1, 3, 4]"

definition hinge_edges :: "MEdge list" where
  "hinge_edges = [\<lparr>v1 = 0, v2 = 1, edge_flag = 0\<rparr>, \<lparr>v1 = 1, v2 = 2, edge_flag = 0\<rparr>,
                  \<lparr>v1 = 2, v2 = 0, edge_flag = 0\<rparr>, \<lparr>v1 = 1, v2 = 3, edge_flag = 0\<rparr>,
                  \<lparr>v1 = 3, v2 = 2, edge_flag = 0\<rparr>]"

definition hinge_positions :: "float3 list" where
  "hinge_positions = [(1, 0, 0), (0, 0, 0), (0, 1, 0), (0, 0, 1)]"

definition hinge_polynors :: "float3 list" where
  "hinge_polynors = [(0, 0, - 1), (- 1, 0, 0)]"

definition hinge_data :: LoopSplitTaskDataCommon where
  "hinge_data = \<lparr>data_lnors_spacearr = None, data_loopnors = [], data_clnors_data = [],
     data_positions = hinge_positions, data_edges = hinge_edges,
     data_corner_verts = hinge_corner_verts, data_corner_edges = hinge_corner_edges,
     data_polys = hinge_polys, data_edge_to_loops = replicate 5 (0, 0),
     data_loop_to_poly = [0, 0, 0, 1, 1, 1], data_polynors = hinge_polynors,
     data_vert_normals = []\<rparr>"

text \<open>
  The hinge after \<^verbatim>\<open>mesh_edges_sharp_tag\<close> without angle check: the shared edge 1 is smooth
  with corners 1 and 3, the four outer edges have one corner each. The fan task is the one
  the generator makes at corner 4 (vertex 1): current edge 3 sharp, previous edge 1 smooth.
\<close>

definition hinge_split_data :: LoopSplitTaskDataCommon where
  "hinge_split_data = hinge_data\<lparr>
     data_loopnors := replicate 6 (0, 0, 1),
     data_vert_normals := replicate 4 (0, 0, 1),
     data_edge_to_loops := [(0, INDEX_UNSET), (1, 3), (2, INDEX_UNSET), (4, INDEX_UNSET),
                            (5, INDEX_UNSET)]\<rparr>"



text \<open>
  Three corners: corners 0 and 1 share the fan space 0, corner 2 has the single space 1.
\<close>

definition shared_spacearr :: MLoopNorSpaceArray where
  "shared_spacearr = \<lparr>lspacearr = [Some 0, Some 0, Some 1],
     spaces = [unit_space\<lparr>loops := [1, 0]\<rparr>, unit_space\<lparr>loops := [2], flags := 1\<rparr>],
     spaces_num = 2\<rparr>"

definition shared_custom_loopnors :: "float3 list" where
  "shared_custom_loopnors = [(1, 0, 0), (0, 1, 0), (0, 0, 1)]"

section \<open>Evaluation helpers\<close>

lemma upt_0_2: "[0..<2] = [0, 1]"
  by (simp add: upt_rec)

lemma upt_0_3: "[0..<3] = [0, 1, 2]"
  by (simp add: upt_rec)

lemma upt_0_Suc_2: "[0..<Suc 2] = [0, 1, 2]"
  by (simp add: upt_rec)

lemma upt_3_6: "[3..<6] = [3, 4, 5]"
  by (simp add: upt_rec)

section \<open>Polygon normals of degenerate faces\<close>

lemma newell_cross_collinear:
  "add_newell_cross_v3_v3v3 n (add_v3_v3 p (mul_v3_v3fl d t)) (add_v3_v3 p (mul_v3_v3fl d s))
   = add_v3_v3 n (sub_v3_v3v3 (newell_potential p d t) (newell_potential p d s))"
  by (cases n; cases p; cases d) (simp add: algebra_simps)

lemma add_sub_telescope:
  "add_v3_v3 (add_v3_v3 n (sub_v3_v3v3 a b)) (sub_v3_v3v3 b c) = add_v3_v3 n (sub_v3_v3v3 a c)"
  by (cases n; cases a; cases b; cases c) simp

lemma add_sub_self: "add_v3_v3 n (sub_v3_v3v3 a a) = n"
  by (cases n; cases a) simp

lemma newell_loop_collinear:
  assumes "\<forall>i \<in> set is. positions ! i = add_v3_v3 p (mul_v3_v3fl d (tf i))"
  shows "newell_loop positions is (add_v3_v3 p (mul_v3_v3fl d t)) n
         = add_v3_v3 n (sub_v3_v3v3 (newell_potential p d t)
                          (newell_potential p d (if is = [] then t else tf (last is))))"
  using assms
proof (induction "is" arbitrary: t n)
  case Nil
  then show ?case by (simp add: add_sub_self)
next
  case (Cons i rest)
  have at_i: "positions ! i = add_v3_v3 p (mul_v3_v3fl d (tf i))"
    using Cons.prems by simp
  have rest: "\<forall>j \<in> set rest. positions ! j = add_v3_v3 p (mul_v3_v3fl d (tf j))"
    using Cons.prems by simp
  have step: "newell_loop positions (i # rest) (add_v3_v3 p (mul_v3_v3fl d t)) n
      = newell_loop positions rest (add_v3_v3 p (mul_v3_v3fl d (tf i)))
          (add_v3_v3 n (sub_v3_v3v3 (newell_potential p d t) (newell_potential p d (tf i))))"
    by (simp only: newell_loop.simps Let_def at_i newell_cross_collinear)
  show ?case
    unfolding step Cons.IH [OF rest] add_sub_telescope
    by simp
qed

text \<open>
  The Newell paths fall back to \<open>(0, 0, 1)\<close> on every polygon whose vertices lie on one line
  (or coincide): this covers the inline block of \<^verbatim>\<open>calculate_normals_poly_and_vert\<close> for every
  polygon size, and \<^verbatim>\<open>mesh_calc_ngon_normal\<close>.
\<close>

lemma newell_normal_collinear:
  assumes "0 < nverts" and "nverts \<le> length poly_verts"
    and "\<forall>i \<in> set (take nverts poly_verts). positions ! i = add_v3_v3 p (mul_v3_v3fl d (tf i))"
  shows "newell_normal positions poly_verts nverts = (0, 0, 1)"
proof -
  let ?is = "take nverts poly_verts"
  have ne: "?is \<noteq> []" using assms(1,2) by auto
  have last: "last ?is = poly_verts ! (nverts - 1)"
    using assms(1,2) ne by (simp add: last_conv_nth min_def)
  have "poly_verts ! (nverts - 1) \<in> set ?is"
    using last ne last_in_set by metis
  then have vp: "positions ! (poly_verts ! (nverts - 1))
      = add_v3_v3 p (mul_v3_v3fl d (tf (poly_verts ! (nverts - 1))))"
    using assms(3) by blast
  have "newell_loop positions ?is (positions ! (poly_verts ! (nverts - 1))) zero_v3 = zero_v3"
    unfolding vp newell_loop_collinear [OF assms(3)]
    using ne last by (simp add: add_sub_self)
  then show ?thesis
    by (simp add: newell_normal_def Let_def normalize_v3_v3_def zero_v3_def normalize_eps_def)
qed

lemma inline_poly_normal_collinear:
  assumes "0 < totloop poly" and "loopstart poly + totloop poly \<le> length corner_verts"
    and "\<forall>i \<in> set (take (totloop poly) (drop (loopstart poly) corner_verts)).
           positions ! i = add_v3_v3 p (mul_v3_v3fl d (tf i))"
  shows "fst (calculate_normals_poly_and_vert_task positions corner_verts poly vn) = (0, 0, 1)"
proof -
  let ?pv = "take (totloop poly) (drop (loopstart poly) corner_verts)"
  have len: "totloop poly \<le> length ?pv" using assms(2) by simp
  have "\<forall>i \<in> set (take (totloop poly) ?pv). positions ! i = add_v3_v3 p (mul_v3_v3fl d (tf i))"
    using assms(3) by simp
  from newell_normal_collinear [OF assms(1) len this]
  show ?thesis
    by (simp add: calculate_normals_poly_and_vert_task_def Let_def del: upt_Suc)
qed

text \<open>The cross product of two vectors along one direction is the zero vector.\<close>

lemma cross_collinear:
  "cross_v3_v3v3
     (sub_v3_v3v3 (add_v3_v3 p (mul_v3_v3fl d s)) (add_v3_v3 p (mul_v3_v3fl d t)))
     (sub_v3_v3v3 (add_v3_v3 p (mul_v3_v3fl d u)) (add_v3_v3 p (mul_v3_v3fl d w)))
   = zero_v3"
  by (cases p; cases d) (simp add: zero_v3_def algebra_simps)

lemma face_normal_fallback_zero: "face_normal_or_fallback zero_v3 = (0, 0, 1)"
  by (simp add: face_normal_or_fallback_def normalize_v3_v3_def zero_v3_def normalize_eps_def)

lemma poly_normal_collinear:
  assumes "0 < totloop mpoly" and "totloop mpoly \<le> length poly_verts"
    and "\<forall>i \<in> set (take (totloop mpoly) poly_verts).
           positions ! i = add_v3_v3 p (mul_v3_v3fl d (tf i))"
  shows "BKE_mesh_calc_poly_normal mpoly poly_verts positions = (0, 0, 1)"
proof -
  have at: "positions ! (poly_verts ! k) = add_v3_v3 p (mul_v3_v3fl d (tf (poly_verts ! k)))"
    if "k < totloop mpoly" for k
  proof -
    have "poly_verts ! k \<in> set (take (totloop mpoly) poly_verts)"
      using that assms(2) by (auto simp: in_set_conv_nth intro!: exI [of _ k])
    then show ?thesis using assms(3) by blast
  qed
  consider "totloop mpoly > 4" | "totloop mpoly = 3" | "totloop mpoly = 4"
    | "totloop mpoly < 3" by linarith
  then show ?thesis
  proof cases
    case 1
    then show ?thesis
      using newell_normal_collinear [OF assms]
      by (simp add: BKE_mesh_calc_poly_normal_def mesh_calc_ngon_normal_def)
  next
    case 2
    then show ?thesis
      using at [of 0] at [of 1] at [of 2]
      by (simp add: BKE_mesh_calc_poly_normal_def normal_tri_v3_def cross_collinear
          face_normal_fallback_zero)
  next
    case 3
    then show ?thesis
      using at [of 0] at [of 1] at [of 2] at [of 3]
      by (simp add: BKE_mesh_calc_poly_normal_def normal_quad_v3_def cross_collinear
          face_normal_fallback_zero)
  next
    case 4
    then show ?thesis by (simp add: BKE_mesh_calc_poly_normal_def)
  qed
qed

text \<open>
  C6 (degenerate face fallback). For every polygon whose vertices all lie on one line
  \<open>p + t * d\<close> (or coincide, with \<open>d\<close> zero), \<^verbatim>\<open>BKE_mesh_calc_poly_normal\<close> and the inline
  computation of \<^verbatim>\<open>calculate_normals_poly_and_vert\<close> both give exactly \<open>(0, 0, 1)\<close>.
\<close>

theorem C6_degenerate_face:
  assumes "0 < totloop poly" and "loopstart poly + totloop poly \<le> length corner_verts"
    and "\<forall>i \<in> set (take (totloop poly) (drop (loopstart poly) corner_verts)).
           positions ! i = add_v3_v3 p (mul_v3_v3fl d (tf i))"
  shows "BKE_mesh_calc_poly_normal poly (drop (loopstart poly) corner_verts) positions
           = (0, 0, 1)
       \<and> fst (calculate_normals_poly_and_vert_task positions corner_verts poly vert_normals)
           = (0, 0, 1)"
proof -
  have "totloop poly \<le> length (drop (loopstart poly) corner_verts)"
    using assms(2) by simp
  from poly_normal_collinear [OF assms(1) this assms(3)]
    inline_poly_normal_collinear [OF assms]
  show ?thesis by simp
qed

theorem C6_degenerate_face_witness:
  "BKE_mesh_calc_poly_normal flat_tri_poly [0, 1, 2] flat_tri_positions = (0, 0, 1)
   \<and> fst (calculate_normals_poly_and_vert_task flat_tri_positions [0, 1, 2] flat_tri_poly
             [zero_v3, zero_v3, zero_v3]) = (0, 0, 1)"
proof -
  have line: "\<forall>i \<in> set [0, 1, 2]. flat_tri_positions ! i
       = add_v3_v3 (0, 0, 0) (mul_v3_v3fl (1, 0, 0) (real i))"
    by (simp add: flat_tri_positions_def)
  have "\<forall>i \<in> set (take (totloop flat_tri_poly) (drop (loopstart flat_tri_poly) [0, 1, 2])).
          flat_tri_positions ! i = add_v3_v3 (0, 0, 0) (mul_v3_v3fl (1, 0, 0) (real i))"
    using line by (simp add: flat_tri_poly_def)
  from C6_degenerate_face [OF _ _ this, of "[zero_v3, zero_v3, zero_v3]"]
  show ?thesis by (simp add: flat_tri_poly_def)
qed

section \<open>Vertex normals\<close>

lemma accumulate_corner_length:
  "length (snd (snd (snd (accumulate_corner positions corner_verts poly_verts pnor i_end
                            edvec_end i_next st))))
   = length (snd (snd (snd st)))"
  by (cases st) (simp add: accumulate_corner_def Let_def)

lemma fold_accumulate_corner_length:
  "length (snd (snd (snd (fold (accumulate_corner positions corner_verts poly_verts pnor i_end
                                  edvec_end) is st))))
   = length (snd (snd (snd st)))"
  by (induction "is" arbitrary: st) (simp_all add: accumulate_corner_length)

lemma task_length:
  "length (snd (calculate_normals_poly_and_vert_task positions corner_verts poly vn)) = length vn"
  by (simp add: calculate_normals_poly_and_vert_task_def Let_def fold_accumulate_corner_length
      del: upt_Suc)

lemma accumulate_polys_length:
  "length (snd (accumulate_polys positions corner_verts polys vn)) = length vn"
proof (induction polys arbitrary: vn)
  case Nil
  then show ?case by simp
next
  case (Cons poly rest)
  show ?case
    using Cons.IH [of "snd (calculate_normals_poly_and_vert_task positions corner_verts poly vn)"]
    by (simp add: split_beta Let_def task_length)
qed

text \<open>
  Claim C10 (implicit vertex-normal fallback): a vertex whose accumulated sum normalizes to
  length 0 gets the normalization of its own position as its normal.
\<close>

theorem C10_vertex_fallback:
  assumes "vert_i < length positions"
    and "snd (normalize_v3_v3 (snd (accumulate_polys positions corner_verts polys
              (replicate (length positions) zero_v3)) ! vert_i)) = 0"
  shows "snd (calculate_normals_poly_and_vert positions polys corner_verts) ! vert_i
         = fst (normalize_v3_v3 (positions ! vert_i))"
  using assms
  by (simp add: calculate_normals_poly_and_vert_def split_beta Let_def accumulate_polys_length
      normalize_vert_normal_def)

theorem C10_vertex_fallback_witness:
  "snd (calculate_normals_poly_and_vert [(2, 0, 0)] [] []) ! 0 = (1, 0, 0)"
proof -
  have h: "snd (normalize_v3_v3 (snd (accumulate_polys [(2, 0, 0)] [] []
              (replicate (length [(2::real, 0::real, 0::real)]) zero_v3)) ! 0)) = 0"
    by (simp add: normalize_v3_v3_def zero_v3_def normalize_eps_def)
  have n: "fst (normalize_v3_v3 (2, 0, 0)) = (1, 0, 0)"
    by (simp add: normalize_v3_v3_def normalize_eps_def)
  from C10_vertex_fallback [of 0 "[(2, 0, 0)]" "[]" "[]", OF _ h] n show ?thesis by simp
qed

text \<open>Evaluation on the two separate triangles.\<close>

lemma two_tris_accumulated_3:
  "snd (accumulate_polys two_tris_positions two_tris_corner_verts two_tris_polys
          (replicate (length two_tris_positions) zero_v3)) ! 3 = (0, 0, 0)"
  by (simp add: two_tris_positions_def two_tris_polys_def two_tris_corner_verts_def
      calculate_normals_poly_and_vert_task_def accumulate_corner_def Let_def upt_0_Suc_2
      newell_normal_def normalize_v3_v3_def zero_v3_def normalize_eps_def numeral_2_eq_2
      numeral_3_eq_3 split: prod.splits)

lemma two_tris_contributions_first:
  "poly_contributions two_tris_positions two_tris_corner_verts
     \<lparr>loopstart = 0, totloop = 3, poly_flag = 0\<rparr> 3 = []"
  by (simp add: poly_contributions_def Let_def two_tris_corner_verts_def upt_0_3)

lemma two_tris_newell_second: "newell_normal two_tris_positions [3, 4, 5] 3 = (0, 0, 1)"
  by (simp add: newell_normal_def two_tris_positions_def Let_def normalize_v3_v3_def zero_v3_def
      normalize_eps_def numeral_2_eq_2 numeral_3_eq_3)

lemma two_tris_corner_3:
  "corner_contribution two_tris_positions [3, 4, 5] (0, 0, 1) 3 0 = (0, 0, pi / 2)"
  by (simp add: corner_contribution_def two_tris_positions_def Let_def normalize_v3_v3_def
      zero_v3_def normalize_eps_def saacos_def)

lemma two_tris_contributions_second:
  "poly_contributions two_tris_positions two_tris_corner_verts
     \<lparr>loopstart = 3, totloop = 3, poly_flag = 0\<rparr> 3 = [(0, 0, pi / 2)]"
  by (simp add: poly_contributions_def Let_def two_tris_corner_verts_def upt_0_3
      two_tris_newell_second two_tris_corner_3)

lemma two_tris_spec_sum_3:
  "vertex_normal_sum_spec two_tris_positions two_tris_polys two_tris_corner_verts 3
   = (0, 0, pi / 2)"
  by (simp add: vertex_normal_sum_spec_def two_tris_polys_def two_tris_contributions_first
      two_tris_contributions_second zero_v3_def)

text \<open>
  Claim C9 (the accumulated vertex normal is the sum of the contributions of every corner
  that references the vertex) on two separate triangles, run one polygon after the other:
  vertex 3 is referenced by corner 3 of the second triangle, whose contribution is
  \<open>(0, 0, pi / 2)\<close>, and its accumulated normal is the zero vector. The contributions of the
  second triangle went to \<^verbatim>\<open>corner_verts[0..2]\<close>, the vertices of the first.
\<close>

theorem C9_contribution_misplaced:
  "snd (accumulate_polys two_tris_positions two_tris_corner_verts two_tris_polys
          (replicate (length two_tris_positions) zero_v3)) ! 3 = (0, 0, 0)
   \<and> vertex_normal_sum_spec two_tris_positions two_tris_polys two_tris_corner_verts 3
       = (0, 0, pi / 2)"
  using two_tris_accumulated_3 two_tris_spec_sum_3 by (rule conjI)

section \<open>Sharp-edge classification\<close>

lemma same_mesh_refl: "same_mesh d d"
  by (simp add: same_mesh_def)

lemma sharp_tag_e2l_same_mesh:
  "same_mesh d d' \<Longrightarrow> sharp_tag_e2l d ca sac tg mp ml e = sharp_tag_e2l d' ca sac tg mp ml e"
  by (simp add: same_mesh_def sharp_tag_e2l_def is_angle_sharp_at_def Let_def)

lemma sharp_tag_corner_same_mesh:
  "same_mesh (fst (sharp_tag_corner ca sac tg mp ml st)) (fst st)"
  by (cases st) (simp add: sharp_tag_corner_def same_mesh_def Let_def split_beta)

lemma sharp_tag_corner_bits_length:
  "length (snd (sharp_tag_corner ca sac tg mp ml st)) = length (snd st)"
  by (cases st) (simp add: sharp_tag_corner_def Let_def split_beta split: option.splits)

lemma same_mesh_trans: "same_mesh a b \<Longrightarrow> same_mesh b c \<Longrightarrow> same_mesh a c"
  by (simp add: same_mesh_def)

lemma sharp_tag_scan_same_mesh: "same_mesh (fst (sharp_tag_scan ca sac tg cs st)) (fst st)"
proof (induction cs arbitrary: st)
  case Nil
  then show ?case by (simp add: sharp_tag_scan_def same_mesh_refl)
next
  case (Cons c cs)
  have "same_mesh (fst (sharp_tag_scan ca sac tg cs (sharp_tag_corner ca sac tg (fst c) (snd c) st)))
          (fst (sharp_tag_corner ca sac tg (fst c) (snd c) st))"
    by (rule Cons.IH)
  then show ?case
    using sharp_tag_corner_same_mesh same_mesh_trans
    by (simp add: sharp_tag_scan_def)
qed

lemma sharp_tag_scan_bits_length: "length (snd (sharp_tag_scan ca sac tg cs st)) = length (snd st)"
  by (induction cs arbitrary: st) (simp_all add: sharp_tag_scan_def sharp_tag_corner_bits_length)

lemma sharp_tag_scan_snoc:
  "sharp_tag_scan ca sac tg (cs @ [c]) st
   = sharp_tag_corner ca sac tg (fst c) (snd c) (sharp_tag_scan ca sac tg cs st)"
  by (simp add: sharp_tag_scan_def)

text \<open>The entry and the bit of one edge only change at the corners that touch the edge.\<close>

lemma sharp_tag_corner_entry:
  assumes "e < length (data_edge_to_loops d)" and "tg \<longrightarrow> e < length bits"
    and "same_mesh d d0"
  shows "(data_edge_to_loops (fst (sharp_tag_corner ca sac tg mp ml (d, bits))) ! e,
          snd (sharp_tag_corner ca sac tg mp ml (d, bits)) ! e)
         = (if data_corner_edges d0 ! ml = e
            then entry_step d0 ca sac tg (mp, ml) (data_edge_to_loops d ! e, bits ! e)
            else (data_edge_to_loops d ! e, bits ! e))"
proof -
  have ce: "data_corner_edges d = data_corner_edges d0"
    using assms(3) by (simp add: same_mesh_def)
  have tagged_only: "snd (sharp_tag_e2l d0 ca sac tg mp ml x) \<noteq> None \<Longrightarrow> tg" for x
    by (auto simp: sharp_tag_e2l_def Let_def split: if_splits)
  show ?thesis
  proof (cases "data_corner_edges d0 ! ml = e")
    case True
    then show ?thesis
      using assms(1,2) tagged_only [of "data_edge_to_loops d ! e"]
      by (auto simp: sharp_tag_corner_def entry_step_def Let_def split_beta ce
          sharp_tag_e2l_same_mesh [OF assms(3)] split: option.splits)
  next
    case False
    then show ?thesis
      by (auto simp: sharp_tag_corner_def Let_def split_beta ce split: option.splits)
  qed
qed

lemma sharp_tag_scan_entry:
  assumes "e < length (data_edge_to_loops d0)" and "tg \<longrightarrow> e < length bits0"
  shows "(data_edge_to_loops (fst (sharp_tag_scan ca sac tg cs (d0, bits0))) ! e,
          snd (sharp_tag_scan ca sac tg cs (d0, bits0)) ! e)
         = fold (entry_step d0 ca sac tg) (filter (\<lambda>c. data_corner_edges d0 ! snd c = e) cs)
             (data_edge_to_loops d0 ! e, bits0 ! e)"
proof (induction cs rule: rev_induct)
  case Nil
  then show ?case by (simp add: sharp_tag_scan_def)
next
  case (snoc c cs)
  let ?st = "sharp_tag_scan ca sac tg cs (d0, bits0)"
  have sm: "same_mesh (fst ?st) d0"
    using sharp_tag_scan_same_mesh [of ca sac tg cs "(d0, bits0)"] by simp
  have l1: "e < length (data_edge_to_loops (fst ?st))"
    using sm assms(1) by (simp add: same_mesh_def)
  have l2: "tg \<longrightarrow> e < length (snd ?st)"
    using assms(2) by (simp add: sharp_tag_scan_bits_length)
  have "?st = (fst ?st, snd ?st)" by simp
  then have step: "sharp_tag_scan ca sac tg (cs @ [c]) (d0, bits0)
      = sharp_tag_corner ca sac tg (fst c) (snd c) (fst ?st, snd ?st)"
    by (simp add: sharp_tag_scan_snoc)
  show ?case
    unfolding step sharp_tag_corner_entry [OF l1 l2 sm]
    using snoc.IH by (cases c) simp
qed

lemma INDEX_consts: "INDEX_UNSET \<noteq> 0" "INDEX_INVALID \<noteq> 0" "INDEX_UNSET \<noteq> INDEX_INVALID"
  "INDEX_INVALID \<noteq> INDEX_UNSET"
  "int n \<noteq> INDEX_UNSET" "int n \<noteq> INDEX_INVALID"
  by (simp_all add: INDEX_UNSET_def INDEX_INVALID_def)

lemma entry_step_unset:
  "entry_step d ca sac tg (mp1, ml1) ((0, 0), b)
   = ((int ml1, if poly_is_smooth (data_polys d ! mp1) then INDEX_UNSET else INDEX_INVALID), b)"
  by (simp add: entry_step_def sharp_tag_e2l_def Let_def)

lemma entry_step_pending:
  "entry_step d ca sac tg (mp, ml) ((int ml1, INDEX_UNSET), b)
   = (if second_corner_sharp d ca sac ml1 mp ml
      then ((int ml1, INDEX_INVALID),
            if tg \<and> ca \<and> dot_v3v3 (data_polynors d ! (data_loop_to_poly d ! ml1))
                              (data_polynors d ! mp) < sac then True else b)
      else ((int ml1, int ml), b))"
  by (simp add: entry_step_def sharp_tag_e2l_def Let_def or_eq_0_iff INDEX_consts
      second_corner_sharp_def is_angle_sharp_at_def)

lemma entry_step_resolved:
  assumes "resolved e2l"
  shows "snd (fst (entry_step d ca sac tg c (e2l, b))) = INDEX_INVALID
         \<and> resolved (fst (entry_step d ca sac tg c (e2l, b)))"
  using assms
  by (auto simp: entry_step_def sharp_tag_e2l_def Let_def resolved_def IS_EDGE_SHARP_def
      or_eq_0_iff INDEX_consts)

lemma entry_step_resolved_bit:
  assumes "resolved e2l" and "b \<longrightarrow> snd e2l = INDEX_INVALID"
  shows "snd (entry_step d ca sac tg c (e2l, b)) = b"
  using assms
  by (auto simp: entry_step_def sharp_tag_e2l_def Let_def resolved_def IS_EDGE_SHARP_def
      or_eq_0_iff INDEX_consts)

lemma fold_entry_step_resolved:
  assumes "resolved (fst eb)"
  shows "resolved (fst (fold (entry_step d ca sac tg) cs eb))
         \<and> (cs \<noteq> [] \<longrightarrow> snd (fst (fold (entry_step d ca sac tg) cs eb)) = INDEX_INVALID)"
  using assms
proof (induction cs arbitrary: eb)
  case Nil
  then show ?case by simp
next
  case (Cons c cs)
  obtain e2l b where eb: "eb = (e2l, b)" by (cases eb)
  from Cons.prems eb have r: "resolved e2l" by simp
  note st = entry_step_resolved [OF r, of d ca sac tg c b]
  let ?eb' = "entry_step d ca sac tg c (e2l, b)"
  have ih: "resolved (fst (fold (entry_step d ca sac tg) cs ?eb'))
         \<and> (cs \<noteq> [] \<longrightarrow> snd (fst (fold (entry_step d ca sac tg) cs ?eb')) = INDEX_INVALID)"
    using st by (intro Cons.IH) simp
  show ?case
  proof (cases "cs = []")
    case True
    then show ?thesis using st eb by simp
  next
    case False
    then show ?thesis using ih eb by simp
  qed
qed

lemma fold_entry_step_resolved_bit:
  assumes "resolved (fst eb)" and "snd eb \<longrightarrow> snd (fst eb) = INDEX_INVALID"
  shows "snd (fold (entry_step d ca sac tg) cs eb) = snd eb"
  using assms
proof (induction cs arbitrary: eb)
  case Nil
  then show ?case by simp
next
  case (Cons c cs)
  obtain e2l b where eb: "eb = (e2l, b)" by (cases eb)
  from Cons.prems eb have r: "resolved e2l" and bb: "b \<longrightarrow> snd e2l = INDEX_INVALID" by simp_all
  note st = entry_step_resolved [OF r, of d ca sac tg c b]
  note sb = entry_step_resolved_bit [OF r bb, of d ca sac tg c]
  let ?eb' = "entry_step d ca sac tg c (e2l, b)"
  have "snd (fold (entry_step d ca sac tg) cs ?eb') = snd ?eb'"
    using st sb by (intro Cons.IH) auto
  then show ?case using sb eb by simp
qed

text \<open>The entry after the first two corners that touch the edge.\<close>

lemma two_corners_entry:
  assumes "ml1 \<noteq> ml2"
  shows "resolved (fst (fold (entry_step d ca sac tg) [(mp1, ml1), (mp2, ml2)] ((0, 0), b)))"
  using assms
  by (auto simp: entry_step_unset entry_step_pending resolved_def or_eq_0_iff INDEX_consts
      entry_step_def sharp_tag_e2l_def Let_def IS_EDGE_SHARP_def)

lemma sharp_tag_poly_scan:
  "sharp_tag_poly ca sac tg mp st
   = sharp_tag_scan ca sac tg (map (Pair mp) (poly_corners (data_polys (fst st) ! mp))) st"
  by (simp add: sharp_tag_poly_def sharp_tag_scan_def fold_map comp_def)

lemma sharp_tag_scan_append:
  "sharp_tag_scan ca sac tg (xs @ ys) st = sharp_tag_scan ca sac tg ys (sharp_tag_scan ca sac tg xs st)"
  by (simp add: sharp_tag_scan_def)

lemma fold_sharp_tag_poly_scan:
  "fold (sharp_tag_poly ca sac tg) mps st
   = sharp_tag_scan ca sac tg
       (concat (map (\<lambda>mp. map (Pair mp) (poly_corners (data_polys (fst st) ! mp))) mps)) st"
proof (induction mps arbitrary: st)
  case Nil
  then show ?case by (simp add: sharp_tag_scan_def)
next
  case (Cons mp mps)
  let ?st' = "sharp_tag_poly ca sac tg mp st"
  have "same_mesh (fst ?st') (fst st)"
    unfolding sharp_tag_poly_scan by (rule sharp_tag_scan_same_mesh)
  then have polys: "data_polys (fst ?st') = data_polys (fst st)"
    by (simp add: same_mesh_def)
  show ?case
    by (simp add: Cons.IH polys sharp_tag_scan_append) (simp add: sharp_tag_poly_scan)
qed

lemma mesh_edges_sharp_tag_scan:
  "mesh_edges_sharp_tag data check_angle split_angle do_tag =
     (let sharp_edges = (if do_tag then replicate (length (data_edges data)) False else []);
          split_angle_cos = (if check_angle then cos split_angle else - 1);
          (data', sharp_edges') =
             sharp_tag_scan check_angle split_angle_cos do_tag (scan_corners (data_polys data))
               (data, sharp_edges)
      in if do_tag then data'\<lparr>data_edges := map2 tag_edge (data_edges data') sharp_edges'\<rparr>
         else data')"
  by (simp add: mesh_edges_sharp_tag_def fold_sharp_tag_poly_scan scan_corners_def Let_def)

lemma hinge_scan: "scan_corners hinge_polys = [(0, 0), (0, 1), (0, 2), (1, 3), (1, 4), (1, 5)]"
  by (simp add: scan_corners_def hinge_polys_def poly_corners_def upt_0_2 upt_0_3 upt_3_6)

lemma hinge_l2p: "build_loop_to_poly_map hinge_polys 6 = [0, 0, 0, 1, 1, 1]"
  by (simp add: build_loop_to_poly_map_def hinge_polys_def poly_corners_def upt_0_2 upt_0_3 upt_3_6
      numeral_eq_Suc)

text \<open>
  Claim C3 (sharp-edge classification). The scan reaches corner \<open>ml\<close> of polygon \<open>mp\<close>;
  \<open>touching\<close> are the corners scanned before it that lie on the same edge, and \<open>e2l'\<close> is the
  entry of that edge right after the corner was processed; the table starts zeroed.
  \<^item> Second corner, the first one being \<open>ml1\<close> in a smooth polygon (the entry is pending): the
    entry is sharp exactly when the polygon of the corner is flat, or the edge has the sharp
    flag, or both corners are on the same vertex, or the angle check is on and the dot
    product of the two face normals is below \<open>cos split_angle\<close>; otherwise the entry is
    \<open>(ml1, ml)\<close>, the second corner index stored.
  \<^item> Second corner, the first one in a flat polygon: the entry is sharp (it was made so at
    the first corner).
  \<^item> Third or later corner: the entry is sharp.
  By \<open>mesh_edges_sharp_tag_scan\<close> the function \<^verbatim>\<open>mesh_edges_sharp_tag\<close> is this scan over
  \<open>scan_corners\<close> of its polygons.
\<close>

theorem C3_sharp_classification:
  assumes scan: "scan_corners (data_polys data) = pre @ (mp, ml) # post"
    and dist: "distinct (map snd (scan_corners (data_polys data)))"
    and range: "data_corner_edges data ! ml < length (data_edge_to_loops data)"
    and bits: "do_tag \<longrightarrow> data_corner_edges data ! ml < length sharp_edges"
    and init: "data_edge_to_loops data ! (data_corner_edges data ! ml) = (0, 0)"
    and touching: "touching = filter (\<lambda>c. data_corner_edges data ! snd c
                                  = data_corner_edges data ! ml) pre"
    and sac: "split_angle_cos = (if check_angle then cos split_angle else - 1)"
    and e2l': "e2l' = data_edge_to_loops (fst (sharp_tag_scan check_angle split_angle_cos do_tag
                         (pre @ [(mp, ml)]) (data, sharp_edges))) ! (data_corner_edges data ! ml)"
  shows "(\<forall>mp1 ml1. touching = [(mp1, ml1)] \<and> poly_is_smooth (data_polys data ! mp1) \<longrightarrow>
            (IS_EDGE_SHARP e2l' \<longleftrightarrow>
               (poly_is_smooth (data_polys data ! mp) = False \<or>
                edge_is_sharp (data_edges data ! (data_corner_edges data ! ml)) \<or>
                data_corner_verts data ! ml = data_corner_verts data ! ml1 \<or>
                (check_angle \<and>
                 dot_v3v3 (data_polynors data ! (data_loop_to_poly data ! ml1))
                   (data_polynors data ! mp) < cos split_angle)))
            \<and> (IS_EDGE_SHARP e2l' = False \<longrightarrow> e2l' = (int ml1, int ml)))
       \<and> (\<forall>mp1 ml1. touching = [(mp1, ml1)] \<and> poly_is_smooth (data_polys data ! mp1) = False \<longrightarrow>
            IS_EDGE_SHARP e2l')
       \<and> (2 \<le> length touching \<longrightarrow> snd e2l' = INDEX_INVALID)"
proof -
  let ?e = "data_corner_edges data ! ml"
  let ?step = "entry_step data check_angle split_angle_cos do_tag"
  let ?b = "sharp_edges ! ?e"
  have filt: "filter (\<lambda>c. data_corner_edges data ! snd c = ?e) (pre @ [(mp, ml)])
              = touching @ [(mp, ml)]"
    by (simp add: touching)
  have entry: "e2l' = fst (fold ?step (touching @ [(mp, ml)]) ((0, 0), ?b))"
    using sharp_tag_scan_entry [OF range bits, of check_angle split_angle_cos "pre @ [(mp, ml)]"]
    by (simp only: filt init e2l' fst_conv [symmetric]) (metis fst_conv)
  have sharp_cond: "second_corner_sharp data check_angle split_angle_cos ml1 mp ml
      \<longleftrightarrow> (poly_is_smooth (data_polys data ! mp) = False \<or>
                edge_is_sharp (data_edges data ! (data_corner_edges data ! ml)) \<or>
                data_corner_verts data ! ml = data_corner_verts data ! ml1 \<or>
                (check_angle \<and>
                 dot_v3v3 (data_polynors data ! (data_loop_to_poly data ! ml1))
                   (data_polynors data ! mp) < cos split_angle))" for ml1
    by (simp add: second_corner_sharp_def sac)
  have one_smooth: "(IS_EDGE_SHARP e2l' \<longleftrightarrow> second_corner_sharp data check_angle split_angle_cos ml1 mp ml)
       \<and> (IS_EDGE_SHARP e2l' = False \<longrightarrow> e2l' = (int ml1, int ml))"
    if "touching = [(mp1, ml1)]" and "poly_is_smooth (data_polys data ! mp1)" for mp1 ml1
    using that
    by (simp add: entry entry_step_unset entry_step_pending IS_EDGE_SHARP_def INDEX_consts)
  have one_flat: "IS_EDGE_SHARP e2l'"
    if "touching = [(mp1, ml1)]" and "poly_is_smooth (data_polys data ! mp1) = False" for mp1 ml1
  proof -
    have r: "resolved (int ml1, INDEX_INVALID)"
      by (simp add: resolved_def or_eq_0_iff INDEX_consts)
    show ?thesis
      using that entry_step_resolved [OF r, of data check_angle split_angle_cos do_tag "(mp, ml)" ?b]
      by (simp add: entry entry_step_unset IS_EDGE_SHARP_def)
  qed
  have many: "snd e2l' = INDEX_INVALID" if "2 \<le> length touching"
  proof -
    from that obtain c1 c2 rest where t: "touching = c1 # c2 # rest"
      by (cases touching; cases "tl touching") auto
    have sub: "set touching \<subseteq> set pre" by (auto simp: touching)
    have "distinct (map snd pre)" using dist scan by simp
    then have "distinct (map snd touching)"
      unfolding touching by (simp add: distinct_map_filter)
    then have ne: "snd c1 \<noteq> snd c2" using t by auto
    have r: "resolved (fst (fold ?step [c1, c2] ((0, 0), ?b)))"
      using two_corners_entry [OF ne, of data check_angle split_angle_cos do_tag "fst c1" "fst c2" ?b]
      by simp
    have "fold ?step (touching @ [(mp, ml)]) ((0, 0), ?b)
          = fold ?step (rest @ [(mp, ml)]) (fold ?step [c1, c2] ((0, 0), ?b))"
      by (simp add: t)
    then show ?thesis
      using fold_entry_step_resolved [OF r, of data check_angle split_angle_cos do_tag
          "rest @ [(mp, ml)]"]
      by (simp add: entry)
  qed
  show ?thesis
    using one_smooth one_flat many sharp_cond by blast
qed

theorem C3_sharp_classification_witness:
  "data_edge_to_loops (fst (sharp_tag_scan False (- 1) False [(0, 0), (0, 1), (0, 2), (1, 3)]
      (hinge_data, []))) ! 1 = (1, 3)"
proof -
  have polys: "data_polys hinge_data = hinge_polys" by (simp add: hinge_data_def)
  have scan: "scan_corners (data_polys hinge_data) = [(0, 0), (0, 1), (0, 2)] @ (1, 3) # [(1, 4), (1, 5)]"
    by (simp add: polys hinge_scan)
  have dist: "distinct (map snd (scan_corners (data_polys hinge_data)))"
    by (simp add: polys hinge_scan)
  have e: "data_corner_edges hinge_data ! 3 = 1"
    by (simp add: hinge_data_def hinge_corner_edges_def)
  have range: "data_corner_edges hinge_data ! 3 < length (data_edge_to_loops hinge_data)"
    by (simp add: hinge_data_def hinge_corner_edges_def)
  have bits: "False \<longrightarrow> data_corner_edges hinge_data ! 3 < length ([] :: bool list)" by simp
  have init: "data_edge_to_loops hinge_data ! (data_corner_edges hinge_data ! 3) = (0, 0)"
    by (simp add: hinge_data_def hinge_corner_edges_def numeral_eq_Suc)
  have touching: "[(0, 1)] = filter (\<lambda>c. data_corner_edges hinge_data ! snd c
                                  = data_corner_edges hinge_data ! 3) [(0, 0), (0, 1), (0, 2)]"
    by (simp add: hinge_data_def hinge_corner_edges_def)
  have sac: "(- 1::real) = (if False then cos 0 else - 1)" by simp
  define e2l' where "e2l' = data_edge_to_loops (fst (sharp_tag_scan False (- 1) False
                         ([(0, 0), (0, 1), (0, 2)] @ [(1, 3)]) (hinge_data, []))) ! (data_corner_edges hinge_data ! 3)"
  note claim = C3_sharp_classification [OF scan dist range bits init touching sac e2l'_def]
  have smooth0: "poly_is_smooth (data_polys hinge_data ! 0)"
    by (simp add: polys hinge_polys_def poly_is_smooth_def ME_SMOOTH_def)
  have smooth1: "poly_is_smooth (data_polys hinge_data ! 1)"
    by (simp add: polys hinge_polys_def poly_is_smooth_def ME_SMOOTH_def)
  have noflag: "edge_is_sharp (data_edges hinge_data ! (data_corner_edges hinge_data ! 3)) = False"
    by (simp add: e) (simp add: hinge_data_def hinge_edges_def edge_is_sharp_def)
  have verts: "data_corner_verts hinge_data ! 3 \<noteq> data_corner_verts hinge_data ! 1"
    by (simp add: hinge_data_def hinge_corner_verts_def)
  from claim smooth0 smooth1 noflag verts have "e2l' = (int 1, int 3)"
    by blast
  then show ?thesis by (simp add: e2l'_def e)
qed

lemma fold_entry_step_bit:
  assumes "distinct (map snd cs)"
  shows "snd (fold (entry_step d True sac True) cs ((0, 0), False))
         = (case cs of
              c1 # c2 # rest \<Rightarrow>
                poly_is_smooth (data_polys d ! fst c1) \<and>
                dot_v3v3 (data_polynors d ! (data_loop_to_poly d ! snd c1))
                  (data_polynors d ! fst c2) < sac
            | _ \<Rightarrow> False)"
proof (cases cs)
  case Nil
  then show ?thesis by simp
next
  case (Cons c1 cs1)
  note c1 = this
  obtain mp1 ml1 where p1: "c1 = (mp1, ml1)" by (cases c1)
  show ?thesis
  proof (cases cs1)
    case Nil
    then show ?thesis using c1 p1 by (simp add: entry_step_unset)
  next
    case (Cons c2 rest)
    obtain mp2 ml2 where p2: "c2 = (mp2, ml2)" by (cases c2)
    have ne: "ml1 \<noteq> ml2" using assms c1 Cons p1 p2 by auto
    let ?eb2 = "fold (entry_step d True sac True) [(mp1, ml1), (mp2, ml2)] ((0, 0), False)"
    have r: "resolved (fst ?eb2)"
      by (rule two_corners_entry [OF ne])
    have b2: "snd ?eb2 = (poly_is_smooth (data_polys d ! mp1) \<and>
                dot_v3v3 (data_polynors d ! (data_loop_to_poly d ! ml1))
                  (data_polynors d ! mp2) < sac)"
    proof (cases "poly_is_smooth (data_polys d ! mp1)")
      case True
      then show ?thesis
        by (auto simp: entry_step_unset entry_step_pending second_corner_sharp_def)
    next
      case False
      have rr: "resolved (int ml1, INDEX_INVALID)"
        by (simp add: resolved_def or_eq_0_iff INDEX_consts)
      show ?thesis
        using False entry_step_resolved_bit [OF rr, of False d True sac True "(mp2, ml2)"]
        by (simp add: entry_step_unset)
    qed
    have inv: "snd ?eb2 \<longrightarrow> snd (fst ?eb2) = INDEX_INVALID"
    proof (cases "poly_is_smooth (data_polys d ! mp1)")
      case True
      then show ?thesis
        by (auto simp: entry_step_unset entry_step_pending second_corner_sharp_def)
    next
      case False
      then show ?thesis using b2 by simp
    qed
    have "fold (entry_step d True sac True) cs ((0, 0), False)
          = fold (entry_step d True sac True) rest ?eb2"
      by (simp add: c1 Cons p1 p2)
    then show ?thesis
      using fold_entry_step_resolved_bit [OF r inv, of d True sac True rest] b2
      by (simp add: c1 Cons p1 p2)
  qed
qed

lemma map2_tag_edge_nth:
  "length bs = length es \<Longrightarrow> e < length es \<Longrightarrow> map2 tag_edge es bs ! e = tag_edge (es ! e) (bs ! e)"
  by simp

text \<open>
  What \<^verbatim>\<open>BKE_edges_sharp_from_angle_set\<close> does to the edges. It returns them unchanged when
  \<open>split_angle\<close> is at or above \<open>pi\<close>. Otherwise it changes nothing but flags: an edge gets
  the sharp flag or-ed in exactly when \<open>angle_tagged\<close> holds for it, that is, when the entry of
  the edge is still pending at its second corner (the first corner is in a smooth polygon)
  and the angle test succeeds there; every other edge is returned as it was. The bit is set
  under \<^verbatim>\<open>do_sharp_edges_tag && is_angle_sharp\<close>, whether or not the second polygon is flat,
  the edge already flagged or the winding flipped as well.
\<close>

lemma angle_set_flags:
  assumes dist: "distinct (map snd (scan_corners mpolys))"
  shows "(split_angle \<ge> pi \<longrightarrow>
            BKE_edges_sharp_from_angle_set positions medges corner_verts corner_edges numLoops
              mpolys polynors split_angle = medges)
       \<and> length (BKE_edges_sharp_from_angle_set positions medges corner_verts corner_edges
                   numLoops mpolys polynors split_angle) = length medges
       \<and> (\<forall>e < length medges.
            BKE_edges_sharp_from_angle_set positions medges corner_verts corner_edges numLoops
              mpolys polynors split_angle ! e
            = tag_edge (medges ! e)
                (split_angle < pi \<and>
                 angle_tagged mpolys corner_edges (build_loop_to_poly_map mpolys numLoops)
                   polynors split_angle e))"
proof (cases "split_angle \<ge> pi")
  case True
  then show ?thesis
    by (simp add: BKE_edges_sharp_from_angle_set_def tag_edge_def)
next
  case False
  define d0 where "d0 = \<lparr>data_lnors_spacearr = None, data_loopnors = [],
              data_clnors_data = [], data_positions = positions, data_edges = medges,
              data_corner_verts = corner_verts, data_corner_edges = corner_edges,
              data_polys = mpolys, data_edge_to_loops = replicate (length medges) (0, 0),
              data_loop_to_poly = build_loop_to_poly_map mpolys numLoops,
              data_polynors = polynors, data_vert_normals = []\<rparr>"
  define st where "st = sharp_tag_scan True (cos split_angle) True (scan_corners mpolys)
                          (d0, replicate (length medges) False)"
  have res: "BKE_edges_sharp_from_angle_set positions medges corner_verts corner_edges numLoops
              mpolys polynors split_angle = map2 tag_edge (data_edges (fst st)) (snd st)"
    using False
    by (simp add: BKE_edges_sharp_from_angle_set_def mesh_edges_sharp_tag_scan Let_def
        split_beta d0_def [symmetric] st_def)
  have sm: "same_mesh (fst st) d0"
    unfolding st_def using sharp_tag_scan_same_mesh [of _ _ _ _ "(d0, x)" for x] by simp
  then have edges: "data_edges (fst st) = medges"
    by (simp add: same_mesh_def d0_def)
  have len: "length (snd st) = length medges"
    by (simp add: st_def sharp_tag_scan_bits_length)
  have fields: "data_polys d0 = mpolys" "data_polynors d0 = polynors"
    "data_loop_to_poly d0 = build_loop_to_poly_map mpolys numLoops"
    "data_corner_edges d0 = corner_edges"
    "data_edge_to_loops d0 = replicate (length medges) (0, 0)"
    by (simp_all add: d0_def)
  have bit: "snd st ! e = angle_tagged mpolys corner_edges
                (build_loop_to_poly_map mpolys numLoops) polynors split_angle e"
    if "e < length medges" for e
  proof -
    let ?touching = "filter (\<lambda>c. corner_edges ! snd c = e) (scan_corners mpolys)"
    have l1: "e < length (data_edge_to_loops d0)" using that by (simp add: fields)
    have l2: "True \<longrightarrow> e < length (replicate (length medges) False)" using that by simp
    have "snd st ! e = snd (fold (entry_step d0 True (cos split_angle) True) ?touching
                              (data_edge_to_loops d0 ! e, replicate (length medges) False ! e))"
      using sharp_tag_scan_entry [OF l1 l2, of True "cos split_angle" "scan_corners mpolys"]
      by (simp add: st_def [symmetric] fields(4) prod_eq_iff)
    also have "\<dots> = snd (fold (entry_step d0 True (cos split_angle) True) ?touching
                              ((0, 0), False))"
      using that by (simp add: fields)
    also have "\<dots> = angle_tagged mpolys corner_edges
                (build_loop_to_poly_map mpolys numLoops) polynors split_angle e"
    proof -
      have "distinct (map snd ?touching)"
        using dist by (simp add: distinct_map_filter)
      from fold_entry_step_bit [OF this, of d0 "cos split_angle"]
      show ?thesis by (simp add: angle_tagged_def fields split: list.splits)
    qed
    finally show ?thesis .
  qed
  show ?thesis
    using False by (simp add: res edges len bit)
qed

text \<open>
  C7 (frame effect of the angle tagging). The claim is that the sharp flag is set only where
  the angle test was the deciding cause of sharpness, as the comment in the source says
  (\<^verbatim>\<open>We want to avoid tagging edges as sharp when it is already defined as such by other
  causes than angle threshold\<close>). On the hinge with one flat and one smooth triangle the shared
  edge is sharp by the flat face; with a split angle of 0 the angle test succeeds as well.
  When the flat triangle comes second in the scan the edge gets the flag; when it comes
  first the edge does not get it.
\<close>

theorem C7_flat_face_flagged:
  "edge_flag (BKE_edges_sharp_from_angle_set hinge_positions hinge_edges hinge_corner_verts
     hinge_corner_edges 6 hinge_flat_second_polys hinge_polynors 0 ! 1) = ME_SHARP
   \<and> poly_is_smooth (hinge_flat_second_polys ! 1) = False
   \<and> edge_flag (BKE_edges_sharp_from_angle_set hinge_positions hinge_edges hinge_corner_verts
     hinge_corner_edges 6 hinge_flat_first_polys hinge_polynors 0 ! 1) = 0
   \<and> poly_is_smooth (hinge_flat_first_polys ! 0) = False"
proof -
  have scan: "scan_corners hinge_flat_second_polys = scan_corners hinge_polys"
    "scan_corners hinge_flat_first_polys = scan_corners hinge_polys"
    by (simp_all add: scan_corners_def hinge_flat_second_polys_def hinge_flat_first_polys_def
        hinge_polys_def poly_corners_def upt_0_2)
  have l2p: "build_loop_to_poly_map hinge_flat_second_polys 6 = [0, 0, 0, 1, 1, 1]"
    "build_loop_to_poly_map hinge_flat_first_polys 6 = [0, 0, 0, 1, 1, 1]"
    by (simp_all add: build_loop_to_poly_map_def hinge_flat_second_polys_def
        hinge_flat_first_polys_def poly_corners_def upt_0_2 upt_0_3 upt_3_6 numeral_eq_Suc)
  have dist: "distinct (map snd (scan_corners hinge_flat_second_polys))"
    "distinct (map snd (scan_corners hinge_flat_first_polys))"
    by (simp_all add: scan hinge_scan)
  have f1: "filter (\<lambda>c. hinge_corner_edges ! snd c = 1) (scan_corners hinge_polys)
            = [(0, 1), (1, 3)]"
    by (simp add: hinge_scan hinge_corner_edges_def)
  have smooth: "poly_is_smooth (hinge_flat_second_polys ! 0)"
    "poly_is_smooth (hinge_flat_second_polys ! 1) = False"
    "poly_is_smooth (hinge_flat_first_polys ! 0) = False"
    by (simp_all add: hinge_flat_second_polys_def hinge_flat_first_polys_def poly_is_smooth_def
        ME_SMOOTH_def)
  have second: "angle_tagged hinge_flat_second_polys hinge_corner_edges
      (build_loop_to_poly_map hinge_flat_second_polys 6) hinge_polynors 0 1"
    unfolding angle_tagged_def scan f1 by (simp add: l2p smooth hinge_polynors_def)
  have first: "angle_tagged hinge_flat_first_polys hinge_corner_edges
      (build_loop_to_poly_map hinge_flat_first_polys 6) hinge_polynors 0 1 = False"
    unfolding angle_tagged_def scan f1 by (simp add: smooth)
  have l: "(1::nat) < length hinge_edges"
    by (simp add: hinge_edges_def)
  from angle_set_flags [OF dist(1), of 0 hinge_positions hinge_edges hinge_corner_verts
      hinge_corner_edges 6 hinge_polynors] l second
  have a: "edge_flag (BKE_edges_sharp_from_angle_set hinge_positions hinge_edges
      hinge_corner_verts hinge_corner_edges 6 hinge_flat_second_polys hinge_polynors 0 ! 1)
      = ME_SHARP"
    by (simp add: tag_edge_def hinge_edges_def)
  from angle_set_flags [OF dist(2), of 0 hinge_positions hinge_edges hinge_corner_verts
      hinge_corner_edges 6 hinge_polynors] l first
  have b: "edge_flag (BKE_edges_sharp_from_angle_set hinge_positions hinge_edges
      hinge_corner_verts hinge_corner_edges 6 hinge_flat_first_polys hinge_polynors 0 ! 1) = 0"
    by (simp add: tag_edge_def hinge_edges_def)
  from a b smooth show ?thesis by simp
qed

section \<open>Fans\<close>

lemma hinge_tagged:
  "mesh_edges_sharp_tag (hinge_data\<lparr>data_loopnors := replicate 6 (0, 0, 0),
       data_vert_normals := replicate 4 (0, 0, 1)\<rparr>) False pi False = hinge_split_data"
  by (simp add: mesh_edges_sharp_tag_def hinge_data_def hinge_split_data_def sharp_tag_poly_def
      sharp_tag_corner_def sharp_tag_e2l_def hinge_polys_def poly_corners_def upt_0_2 upt_0_3
      upt_3_6 hinge_corner_edges_def hinge_corner_verts_def Let_def poly_is_smooth_def
      ME_SMOOTH_def INDEX_UNSET_def INDEX_INVALID_def IS_EDGE_SHARP_def edge_is_sharp_def
      hinge_edges_def is_angle_sharp_at_def numeral_eq_Suc)

lemma fold_update_other:
  "c \<notin> set cs \<Longrightarrow> fold (\<lambda>nor loopnors. loopnors[nor := v]) cs xs ! c = xs ! c"
  by (induction cs arbitrary: xs) auto

lemma fold_update_length:
  "length (fold (\<lambda>nor loopnors. loopnors[nor := v]) cs xs) = length xs"
  by (induction cs arbitrary: xs) auto

lemma fold_update_nth:
  "c \<in> set cs \<Longrightarrow> c < length xs \<Longrightarrow> fold (\<lambda>nor loopnors. loopnors[nor := v]) cs xs ! c = v"
proof (induction cs arbitrary: xs)
  case Nil
  then show ?case by simp
next
  case (Cons a cs)
  show ?case
  proof (cases "c \<in> set cs")
    case True
    then show ?thesis using Cons by simp
  next
    case False
    then have ca: "c = a" using Cons.prems by simp
    show ?thesis
      using Cons.prems(2) fold_update_other [OF False, of v "xs[a := v]"] by (simp add: ca)
  qed
qed

text \<open>The loop normals during the scan: every corner visited holds the normal of its vertex.\<close>

lemma sharp_tag_corner_loopnors:
  "data_loopnors (fst (sharp_tag_corner ca sac tg mp ml st))
   = (if data_loopnors (fst st) \<noteq> []
      then (data_loopnors (fst st))
             [ml := data_vert_normals (fst st) ! (data_corner_verts (fst st) ! ml)]
      else data_loopnors (fst st))"
  by (cases st) (simp add: sharp_tag_corner_def Let_def split_beta)

lemma sharp_tag_scan_loopnors_length:
  "length (data_loopnors (fst (sharp_tag_scan ca sac tg cs st))) = length (data_loopnors (fst st))"
proof (induction cs rule: rev_induct)
  case Nil
  then show ?case by (simp add: sharp_tag_scan_def)
next
  case (snoc x xs)
  then show ?case
    by (auto simp: sharp_tag_scan_snoc sharp_tag_corner_loopnors)
qed

lemma sharp_tag_scan_prepopulated:
  assumes "c \<in> snd ` set cs" "c < length (data_loopnors (fst st))"
  shows "data_loopnors (fst (sharp_tag_scan ca sac tg cs st)) ! c
         = data_vert_normals (fst st) ! (data_corner_verts (fst st) ! c)"
  using assms(1)
proof (induction cs rule: rev_induct)
  case Nil
  then show ?case by simp
next
  case (snoc x xs)
  let ?st = "sharp_tag_scan ca sac tg xs st"
  have same: "same_mesh (fst ?st) (fst st)" by (rule sharp_tag_scan_same_mesh)
  then have mesh: "data_vert_normals (fst ?st) = data_vert_normals (fst st)"
      "data_corner_verts (fst ?st) = data_corner_verts (fst st)"
    by (simp_all add: same_mesh_def)
  have len: "length (data_loopnors (fst ?st)) = length (data_loopnors (fst st))"
    by (rule sharp_tag_scan_loopnors_length)
  then have ne: "data_loopnors (fst ?st) \<noteq> []" using assms(2) by auto
  show ?case
  proof (cases "snd x = c")
    case True
    then show ?thesis
      using assms(2) len ne
      by (simp add: sharp_tag_scan_snoc sharp_tag_corner_loopnors mesh)
  next
    case False
    then have "c \<in> snd ` set xs" using snoc.prems by auto
    then show ?thesis
      using snoc.IH False ne
      by (simp add: sharp_tag_scan_snoc sharp_tag_corner_loopnors)
  qed
qed

lemma mesh_edges_sharp_tag_same_mesh:
  "same_mesh (mesh_edges_sharp_tag data check_angle split_angle False) data"
  using sharp_tag_scan_same_mesh [of check_angle _ False "scan_corners (data_polys data)" "(data, [])"]
  by (simp add: mesh_edges_sharp_tag_scan Let_def split_beta)

text \<open>
  \<^verbatim>\<open>mesh_edges_sharp_tag\<close>, as \<^verbatim>\<open>BKE_mesh_normals_loop_split\<close> calls it, leaves in every corner of
  every polygon the normal of the vertex of the corner.
\<close>

lemma mesh_edges_sharp_tag_prepopulated:
  assumes "c \<in> snd ` set (scan_corners (data_polys data))"
    and "c < length (data_loopnors data)"
  shows "data_loopnors (mesh_edges_sharp_tag data check_angle split_angle False) ! c
         = data_vert_normals (mesh_edges_sharp_tag data check_angle split_angle False)
             ! (data_corner_verts (mesh_edges_sharp_tag data check_angle split_angle False) ! c)"
proof -
  have "data_loopnors (mesh_edges_sharp_tag data check_angle split_angle False) ! c
      = data_vert_normals data ! (data_corner_verts data ! c)"
    using sharp_tag_scan_prepopulated [of c "scan_corners (data_polys data)" "(data, [])"] assms
    by (simp add: mesh_edges_sharp_tag_scan Let_def split_beta)
  then show ?thesis
    using mesh_edges_sharp_tag_same_mesh [of data check_angle split_angle]
    by (simp add: same_mesh_def)
qed

text \<open>The body of the loop: what it does to the position of the walk and to the stack.\<close>

lemma fan_accumulate_pos: "fan_pos_of (fan_accumulate common_data data st) = fan_pos_of st"
  by (simp add: fan_accumulate_def fan_pos_of_def Let_def split: option.splits)

lemma fan_accumulate_normal:
  "fs_normal (fan_accumulate common_data data st) = fs_mlfan_vert_index st # fs_normal st"
  by (simp add: fan_accumulate_def Let_def split: option.splits)

lemma fan_finished_pos:
  "fan_finished common_data data st = fan_pos_finished common_data data (fan_pos_of st)"
  by (simp add: fan_finished_def fan_pos_finished_def fan_pos_of_def)

lemma fan_advance_pos:
  "fan_pos_of (fan_advance common_data data st) = fan_pos_next common_data data (fan_pos_of st)"
  by (simp add: fan_advance_def fan_pos_next_def fan_pos_of_def Let_def split_beta)

lemma fan_advance_normal: "fs_normal (fan_advance common_data data st) = fs_normal st"
  by (simp add: fan_advance_def Let_def split_beta)

lemma fan_init_pos: "fan_pos_of (fan_init common_data data) = fan_pos_init common_data data"
  by (simp add: fan_init_def fan_pos_of_def fan_pos_init_def Let_def)

text \<open>
  The loop ends when the fan does: if the fan has the corners \<open>cs\<close>, then on fuel for
  \<open>length cs\<close> rounds or more the loop is left, with these corners on the stack, the last one
  on top.
\<close>

lemma fan_walk_corners:
  assumes "fan_corners_walk n common_data data (fan_pos_of st) = Some cs"
    and "length cs \<le> fuel"
  shows "\<exists>st'. fan_walk fuel common_data data st = Some st'
           \<and> fs_normal st' = rev cs @ fs_normal st"
  using assms
proof (induction n arbitrary: st cs fuel)
  case 0
  then show ?case by simp
next
  case (Suc n)
  let ?st1 = "fan_accumulate common_data data st"
  have pos1: "fan_pos_of ?st1 = fan_pos_of st" by (rule fan_accumulate_pos)
  have vert: "fst (snd (snd (fan_pos_of st))) = fs_mlfan_vert_index st"
    by (simp add: fan_pos_of_def)
  show ?case
  proof (cases "fan_pos_finished common_data data (fan_pos_of st)")
    case True
    then have cs: "cs = [fs_mlfan_vert_index st]" using Suc.prems(1) vert by simp
    then obtain fuel' where fuel: "fuel = Suc fuel'"
      using Suc.prems(2) by (cases fuel) auto
    have "fan_finished common_data data ?st1"
      using True by (simp add: fan_finished_pos pos1)
    then show ?thesis
      by (simp add: fuel Let_def cs fan_accumulate_normal)
  next
    case False
    let ?st2 = "fan_advance common_data data ?st1"
    have pos2: "fan_pos_of ?st2 = fan_pos_next common_data data (fan_pos_of st)"
      by (simp add: fan_advance_pos pos1)
    obtain cs' where cs: "cs = fs_mlfan_vert_index st # cs'"
      and rest: "fan_corners_walk n common_data data (fan_pos_of ?st2) = Some cs'"
      using Suc.prems(1) False vert by (auto simp: pos2)
    obtain fuel' where fuel: "fuel = Suc fuel'" and len: "length cs' \<le> fuel'"
      using Suc.prems(2) cs by (cases fuel) auto
    from Suc.IH [OF rest len] obtain st' where
      st': "fan_walk fuel' common_data data ?st2 = Some st'"
        "fs_normal st' = rev cs' @ fs_normal ?st2"
      by blast
    have nf: "\<not> fan_finished common_data data ?st1"
      using False by (simp add: fan_finished_pos pos1)
    have "fan_walk fuel common_data data st = Some st'"
      using nf st'(1) by (simp add: fuel Let_def)
    moreover have "fs_normal st' = rev cs @ fs_normal st"
      by (simp add: st'(2) cs fan_advance_normal fan_accumulate_normal)
    ultimately show ?thesis by blast
  qed
qed

text \<open>Conversely, the loop is not left as long as the fan has not ended.\<close>

lemma fan_walk_unending:
  assumes "fan_corners_walk fuel common_data data (fan_pos_of st) = None"
  shows "fan_walk fuel common_data data st = None"
  using assms
proof (induction fuel arbitrary: st)
  case 0
  then show ?case by simp
next
  case (Suc fuel)
  let ?st1 = "fan_accumulate common_data data st"
  let ?st2 = "fan_advance common_data data ?st1"
  have pos1: "fan_pos_of ?st1 = fan_pos_of st" by (rule fan_accumulate_pos)
  have pos2: "fan_pos_of ?st2 = fan_pos_next common_data data (fan_pos_of st)"
    by (simp add: fan_advance_pos pos1)
  have nf: "\<not> fan_pos_finished common_data data (fan_pos_of st)"
    using Suc.prems by (auto split: if_splits)
  then have "fan_corners_walk fuel common_data data (fan_pos_of ?st2) = None"
    using Suc.prems by (simp add: pos2)
  then have "fan_walk fuel common_data data ?st2 = None" by (rule Suc.IH)
  then show ?case
    using nf by (simp add: Let_def fan_finished_pos pos1)
qed

text \<open>
  What follows the loop: the corners on the stack get one normal; without a space array and
  with a sum of length zero nothing is written.
\<close>

lemma fan_finish_loopnors:
  "(\<exists>v. data_loopnors (fan_finish common_data data st)
        = fold (\<lambda>nor loopnors. loopnors[nor := v]) (fs_normal st) (data_loopnors common_data))
   \<or> data_loopnors (fan_finish common_data data st) = data_loopnors common_data"
proof (cases "fs_lnors_spacearr st")
  case None
  show ?thesis
  proof (cases "snd (normalize_v3_v3 (fs_lnor st)) = 0")
    case True
    then show ?thesis using None by (simp add: fan_finish_def Let_def split_beta)
  next
    case False
    have "data_loopnors (fan_finish common_data data st)
        = fold (\<lambda>nor loopnors. loopnors[nor := fst (normalize_v3_v3 (fs_lnor st))])
            (fs_normal st) (data_loopnors common_data)"
      using None False by (simp add: fan_finish_def Let_def split_beta)
    then show ?thesis by blast
  qed
next
  case (Some arr)
  have "\<exists>v. data_loopnors (fan_finish common_data data st)
        = fold (\<lambda>nor loopnors. loopnors[nor := v]) (fs_normal st) (data_loopnors common_data)"
    using Some by (auto simp add: fan_finish_def Let_def split_beta simp del: split_paired_Ex)
  then show ?thesis by (rule disjI1)
qed

lemma fan_finish_mesh:
  "data_vert_normals (fan_finish common_data data st) = data_vert_normals common_data"
  "data_corner_verts (fan_finish common_data data st) = data_corner_verts common_data"
  by (simp_all add: fan_finish_def Let_def split_beta split: option.splits)

text \<open>The corners outside the fan keep their normals.\<close>

lemma split_loop_nor_fan_do_frame:
  assumes fan: "fan_corners n common_data data = Some cs" and fuel: "length cs \<le> fuel"
    and other: "c \<notin> set cs"
  shows "\<exists>common'. split_loop_nor_fan_do fuel common_data data = Some common'
           \<and> data_loopnors common' ! c = data_loopnors common_data ! c
           \<and> data_vert_normals common' = data_vert_normals common_data
           \<and> data_corner_verts common' = data_corner_verts common_data"
proof -
  have "fan_corners_walk n common_data data (fan_pos_of (fan_init common_data data)) = Some cs"
    using fan by (simp add: fan_corners_def fan_init_pos)
  from fan_walk_corners [OF this fuel] obtain st where
    walk: "fan_walk fuel common_data data (fan_init common_data data) = Some st"
    and stack: "fs_normal st = rev cs @ fs_normal (fan_init common_data data)"
    by blast
  have stack': "fs_normal st = rev cs" using stack by (simp add: fan_init_def Let_def)
  have res: "split_loop_nor_fan_do fuel common_data data = Some (fan_finish common_data data st)"
    by (simp add: split_loop_nor_fan_do_def walk)
  have "data_loopnors (fan_finish common_data data st) ! c = data_loopnors common_data ! c"
    using fan_finish_loopnors [of common_data data st] other
    by (auto simp: stack' fold_update_other)
  then show ?thesis using res by (simp add: fan_finish_mesh)
qed

lemma split_loop_nor_single_do_frame:
  assumes "c \<noteq> the (task_lnor data)"
  shows "data_loopnors (split_loop_nor_single_do common_data data) ! c
         = data_loopnors common_data ! c"
  using assms
  by (simp add: split_loop_nor_single_do_def Let_def split: option.splits)





section \<open>The generator with a task pool\<close>

lemma block_size: "1 < LOOP_SPLIT_TASK_BLOCK_SIZE"
  by (simp add: LOOP_SPLIT_TASK_BLOCK_SIZE_def)

lemma pool_task_slot_props:
  assumes "data_idx = 0 \<or> length data_buff = LOOP_SPLIT_TASK_BLOCK_SIZE"
  shows "length (pool_task_slot data_buff data_idx) = LOOP_SPLIT_TASK_BLOCK_SIZE"
    and "i < LOOP_SPLIT_TASK_BLOCK_SIZE \<Longrightarrow>
         task_ml_curr_index (pool_task_slot data_buff data_idx ! i) = - 1"
  using assms by (auto simp: pool_task_slot_def Let_def)

lemma worker_tasks_first_ended:
  "0 < length block \<Longrightarrow> task_ml_curr_index (block ! 0) = - 1 \<Longrightarrow> worker_tasks block = []"
  by (cases block) (simp_all add: worker_tasks_def)

lemma worker_tasks_second_ended:
  "1 < length block \<Longrightarrow> task_ml_curr_index (block ! 1) = - 1 \<Longrightarrow>
   length (worker_tasks block) \<le> 1"
  by (cases block; cases "tl block") (auto simp: worker_tasks_def)

text \<open>A task that fills the block: the block is pushed, and its first entry is ended.\<close>

lemma pool_blocks_inv_full:
  assumes "pool_blocks_inv data_buff data_idx pushed"
    and "data_idx + 1 = LOOP_SPLIT_TASK_BLOCK_SIZE"
  shows "pool_blocks_inv ((pool_task_slot data_buff data_idx)[data_idx := d]) 0
           (pushed @ [(pool_task_slot data_buff data_idx)[data_idx := d]])"
proof -
  let ?slot = "pool_task_slot data_buff data_idx"
  have pre: "data_idx = 0 \<or> length data_buff = LOOP_SPLIT_TASK_BLOCK_SIZE"
    using assms(1) by (auto simp: pool_blocks_inv_def)
  note slot = pool_task_slot_props [OF pre]
  have "data_idx \<noteq> 0" using assms(2) block_size by simp
  then have ended: "task_ml_curr_index (?slot[data_idx := d] ! 0) = - 1"
    using slot(2) [of 0] block_size by simp
  have "0 < length (?slot[data_idx := d])"
    using slot(1) block_size by simp
  then have "worker_tasks (?slot[data_idx := d]) = []"
    using ended by (rule worker_tasks_first_ended)
  then show ?thesis
    using assms(1) block_size by (simp add: pool_blocks_inv_def)
qed

text \<open>A task that does not fill the block: it is the only entry that is not ended.\<close>

lemma pool_blocks_inv_part:
  assumes "pool_blocks_inv data_buff data_idx pushed"
    and "data_idx + 1 \<noteq> LOOP_SPLIT_TASK_BLOCK_SIZE"
  shows "pool_blocks_inv ((pool_task_slot data_buff data_idx)[data_idx := d]) (data_idx + 1)
           pushed"
proof -
  have pre: "data_idx = 0 \<or> length data_buff = LOOP_SPLIT_TASK_BLOCK_SIZE"
    using assms(1) by (auto simp: pool_blocks_inv_def)
  note slot = pool_task_slot_props [OF pre]
  show ?thesis
    using assms slot by (auto simp: pool_blocks_inv_def nth_list_update)
qed

lemma generator_corner_pool_inv:
  assumes "pool_inv gs"
    and "generator_corner fuel True mp_index ml_curr_index ml_prev_index gs = Some gs'"
  shows "pool_inv gs'"
  using assms(2) assms(1) pool_blocks_inv_full pool_blocks_inv_part
  by (auto simp: generator_corner_def Let_def pool_inv_def
      split: option.splits if_splits prod.splits)

lemma generator_corners_pool_inv:
  "pool_inv gs \<Longrightarrow> generator_corners fuel True mp_index cs ml_prev_index gs = Some gs' \<Longrightarrow>
   pool_inv gs'"
proof (induction cs arbitrary: gs ml_prev_index)
  case Nil
  then show ?case by simp
next
  case (Cons c cs)
  then show ?case
    by (auto split: option.splits dest: generator_corner_pool_inv)
qed

lemma generator_polys_pool_inv:
  "pool_inv gs \<Longrightarrow> generator_polys fuel True mps gs = Some gs' \<Longrightarrow> pool_inv gs'"
proof (induction mps arbitrary: gs)
  case Nil
  then show ?case by simp
next
  case (Cons mp mps)
  then show ?case
    by (auto simp: Let_def split: option.splits dest: generator_corners_pool_inv)
qed

text \<open>The pool runs the tasks the workers find in the blocks, block after block.\<close>

lemma run_tasks_append:
  "run_tasks fuel (xs @ ys) common_data =
     (case run_tasks fuel xs common_data of
        None \<Rightarrow> None
      | Some common1 \<Rightarrow> run_tasks fuel ys common1)"
  by (induction xs arbitrary: common_data) (auto split: option.splits)

lemma pool_work_and_wait_run_tasks:
  "pool_work_and_wait fuel blocks common_data =
     run_tasks fuel (concat (map worker_tasks blocks)) common_data"
  by (induction blocks arbitrary: common_data)
    (auto simp: loop_split_worker_def run_tasks_append split: option.splits)

lemma pool_blocks_at_most_one_task:
  assumes "loop_split_generator fuel True common_data = Some (common', blocks)"
  shows "length (concat (map worker_tasks blocks)) \<le> 1"
proof -
  let ?gs0 = "\<lparr>gen_common = common_data,
                 gen_skip_loops = replicate (length (data_corner_verts common_data)) False,
                 gen_data_buff = [], gen_data_idx = 0, gen_pushed = []\<rparr>"
  from assms obtain gs where
    run: "generator_polys fuel True [0 ..< length (data_polys common_data)] ?gs0 = Some gs"
    and blocks: "blocks = (if gen_data_idx gs \<noteq> 0 then gen_pushed gs @ [gen_data_buff gs]
                           else gen_pushed gs)"
    by (auto simp: loop_split_generator_def Let_def split: option.splits)
  have "pool_inv ?gs0"
    using block_size by (simp add: pool_inv_def pool_blocks_inv_def)
  from generator_polys_pool_inv [OF this run]
  have inv: "pool_blocks_inv (gen_data_buff gs) (gen_data_idx gs) (gen_pushed gs)"
    by (simp add: pool_inv_def)
  then have pushed: "concat (map worker_tasks (gen_pushed gs)) = []"
    by (simp add: pool_blocks_inv_def)
  show ?thesis
  proof (cases "gen_data_idx gs = 0")
    case True
    then show ?thesis using blocks by (simp add: pushed)
  next
    case False
    have len: "length (gen_data_buff gs) = LOOP_SPLIT_TASK_BLOCK_SIZE"
      using inv False by (simp add: pool_blocks_inv_def)
    from inv False
    have ended: "\<forall>i < LOOP_SPLIT_TASK_BLOCK_SIZE.
        i = gen_data_idx gs - 1 \<or> task_ml_curr_index (gen_data_buff gs ! i) = - 1"
      by (simp add: pool_blocks_inv_def)
    have "length (worker_tasks (gen_data_buff gs)) \<le> 1"
    proof (cases "gen_data_idx gs = 1")
      case True
      have long: "1 < length (gen_data_buff gs)"
        using len block_size by simp
      from ended
      have "1 = gen_data_idx gs - 1 \<or> task_ml_curr_index (gen_data_buff gs ! 1) = - 1"
        using block_size by blast
      then have "task_ml_curr_index (gen_data_buff gs ! 1) = - 1"
        using True by simp
      with long show ?thesis
        by (rule worker_tasks_second_ended)
    next
      case False
      have nonempty: "0 < length (gen_data_buff gs)"
        using len block_size by simp
      from ended
      have "0 = gen_data_idx gs - 1 \<or> task_ml_curr_index (gen_data_buff gs ! 0) = - 1"
        using block_size by (metis less_trans zero_less_one)
      then have "task_ml_curr_index (gen_data_buff gs ! 0) = - 1"
        using False \<open>gen_data_idx gs \<noteq> 0\<close> by auto
      with nonempty have "worker_tasks (gen_data_buff gs) = []"
        by (rule worker_tasks_first_ended)
      then show ?thesis by simp
    qed
    then show ?thesis using blocks False by (simp add: pushed)
  qed
qed

text \<open>
  The hinge with a pool: the generator makes four tasks (corners 0, 2, 4 and 5) in one
  block, of which only the last keeps its \<^verbatim>\<open>ml_curr_index\<close>; the worker stops at the first
  entry of the block and runs none of them.
\<close>

lemma hinge_sharp:
  "IS_EDGE_SHARP (0, INDEX_UNSET)" "IS_EDGE_SHARP (2, INDEX_UNSET)"
  "IS_EDGE_SHARP (4, INDEX_UNSET)" "IS_EDGE_SHARP (5, INDEX_UNSET)"
  "\<not> IS_EDGE_SHARP (1, 3)"
  by (simp_all add: IS_EDGE_SHARP_def INDEX_UNSET_def INDEX_INVALID_def)

lemma hinge_pool_blocks:
  "\<exists>common' block. loop_split_generator 0 True hinge_split_data = Some (common', [block])
     \<and> map task_ml_curr_index (take 4 block) = [- 1, - 1, - 1, 5]
     \<and> worker_tasks block = []"
  by (simp add: loop_split_generator_def generator_corner_def Let_def hinge_sharp
      loop_split_generator_check_cyclic_smooth_fan_def pool_task_slot_def fill_task_def
      hinge_split_data_def hinge_data_def hinge_polys_def hinge_corner_verts_def
      hinge_corner_edges_def poly_corners_def upt_rec LOOP_SPLIT_TASK_BLOCK_SIZE_def
      worker_tasks_def take_Suc_conv_app_nth numeral_eq_Suc)

text \<open>
  C5. The claim is that one call discovers every smooth fan and processes it exactly once.
  With a task pool this does not hold: whatever the mesh, the workers find at most one task
  in all the blocks the generator pushes, so at most one of the tasks it has made is run
  by \<^verbatim>\<open>BLI_task_pool_work_and_wait\<close>; the fans of the other tasks are never processed.
\<close>

theorem C5_pool_tasks_dropped:
  assumes "loop_split_generator fuel True common_data = Some (common', blocks)"
  shows "length (concat (map worker_tasks blocks)) \<le> 1
       \<and> pool_work_and_wait fuel blocks common'
           = run_tasks fuel (concat (map worker_tasks blocks)) common'"
  using pool_blocks_at_most_one_task [OF assms] pool_work_and_wait_run_tasks by simp

theorem C5_pool_tasks_dropped_witness:
  "\<exists>common' blocks. loop_split_generator 0 True hinge_split_data = Some (common', blocks)
     \<and> length (concat (map worker_tasks blocks)) \<le> 1
     \<and> pool_work_and_wait 0 blocks common'
         = run_tasks 0 (concat (map worker_tasks blocks)) common'"
proof -
  from hinge_pool_blocks obtain common' block where
    run: "loop_split_generator 0 True hinge_split_data = Some (common', [block])"
    by blast
  from C5_pool_tasks_dropped [OF run] run show ?thesis
    by blast
qed


section \<open>Custom normals: one code per fan\<close>

text \<open>The first loop of the fan branch in closed form, and its sum as the average.\<close>

lemma custom_fan_accumulate_result:
  "custom_fan_accumulate corner_verts r_custom_loopnors use_vertices ls done_loops =
     (length ls,
      fold (\<lambda>lidx avg_nor. add_v3_v3 avg_nor
              (r_custom_loopnors ! custom_nor_index use_vertices corner_verts lidx)) ls zero_v3,
      rev ls,
      fold (\<lambda>lidx done_loops1. done_loops1[lidx := False]) ls done_loops)"
proof -
  have "fold (\<lambda>lidx (avg_nor_count, avg_nor, clnors_data, done_loops1).
             (avg_nor_count + 1,
              add_v3_v3 avg_nor
                (r_custom_loopnors ! custom_nor_index use_vertices corner_verts lidx),
              lidx # clnors_data,
              done_loops1[lidx := False])) ls (n, a, st, d)
      = (n + length ls,
         fold (\<lambda>lidx avg_nor. add_v3_v3 avg_nor
              (r_custom_loopnors ! custom_nor_index use_vertices corner_verts lidx)) ls a,
         rev ls @ st,
         fold (\<lambda>lidx done_loops1. done_loops1[lidx := False]) ls d)" for n a st d
    by (induction ls arbitrary: n a st d) simp_all
  then show ?thesis by (simp add: custom_fan_accumulate_def)
qed

lemma fold_add_v3_sum:
  "fold (\<lambda>l avg_nor. add_v3_v3 avg_nor (f l)) ls a =
     (fst a + sum_list (map (\<lambda>l. fst (f l)) ls),
      fst (snd a) + sum_list (map (\<lambda>l. fst (snd (f l))) ls),
      snd (snd a) + sum_list (map (\<lambda>l. snd (snd (f l))) ls))"
proof (induction ls arbitrary: a)
  case Nil
  then show ?case by simp
next
  case (Cons l ls)
  obtain x y z where a: "a = (x, y, z)" by (cases a)
  obtain u v w where f: "f l = (u, v, w)" by (cases "f l")
  show ?case by (simp add: Cons a f)
qed

lemma custom_fan_average:
  "mul_v3_v3fl (fold (\<lambda>l avg_nor. add_v3_v3 avg_nor (f l)) ls zero_v3) (1 / real (length ls))
     = spec_average_v3 (map f ls)"
  by (simp add: fold_add_v3_sum zero_v3_def spec_average_v3_def comp_def)

text \<open>What the body does in the fan branch, in closed form.\<close>

lemma custom_encode_corner_fan:
  assumes "lspacearr arr ! k = Some sp" "fst st ! k" "space_is_fan (spaces arr ! sp)"
  shows "custom_encode_corner arr cv custom uv k st =
     (fold (\<lambda>lidx done_loops1. done_loops1[lidx := False]) (loops (spaces arr ! sp)) (fst st),
      fold (\<lambda>clnor_data clnors. clnors[clnor_data := spec_fan_code arr cv custom uv sp])
        (rev (loops (spaces arr ! sp))) (snd st))"
  using assms
  by (simp add: custom_encode_corner_def Let_def custom_fan_accumulate_result
      custom_fan_average spec_fan_code_def space_is_fan_def)

lemma custom_encode_corner_single:
  assumes "lspacearr arr ! k = Some sp" "fst st ! k" "\<not> space_is_fan (spaces arr ! sp)"
  shows "custom_encode_corner arr cv custom uv k st =
     ((fst st)[k := False],
      (snd st)[k := BKE_lnor_space_custom_normal_to_data (spaces arr ! sp)
                      (custom ! custom_nor_index uv cv k)])"
  using assms
  by (simp add: custom_encode_corner_def Let_def space_is_fan_def)

lemma custom_encode_corner_skip:
  assumes "lspacearr arr ! k = Some sp" "\<not> fst st ! k"
  shows "custom_encode_corner arr cv custom uv k st = st"
  using assms by (simp add: custom_encode_corner_def Let_def)

lemma custom_encode_corner_null:
  assumes "lspacearr arr ! k = None"
  shows "custom_encode_corner arr cv custom uv k st = ((fst st)[k := False], snd st)"
  using assms by (simp add: custom_encode_corner_def Let_def)

lemma consistent_member:
  assumes "lnor_spaces_consistent arr n" "sp < length (spaces arr)"
    "space_is_fan (spaces arr ! sp)" "l \<in> set (loops (spaces arr ! sp))"
  shows "l < n \<and> lspacearr arr ! l = Some sp"
proof -
  from assms(1) have "\<forall>sp \<in> {0 ..< length (spaces arr)}.
            space_is_fan (spaces arr ! sp)
            \<longrightarrow> (\<forall>l \<in> set (loops (spaces arr ! sp)).
                   l < n \<and> lspacearr arr ! l = Some sp)"
    unfolding lnor_spaces_consistent_def by (rule conjunct2)
  with assms(2,3,4) show ?thesis by simp
qed

lemma consistent_corner:
  assumes "lnor_spaces_consistent arr n" "k < n" "lspacearr arr ! k = Some sp"
  shows "sp < length (spaces arr)
       \<and> (space_is_fan (spaces arr ! sp) \<longrightarrow> k \<in> set (loops (spaces arr ! sp)))"
proof -
  from assms(1) have "\<forall>l \<in> {0 ..< n}.
         case lspacearr arr ! l of
           None \<Rightarrow> True
         | Some sp \<Rightarrow> sp < length (spaces arr)
             \<and> (space_is_fan (spaces arr ! sp)
                  \<longrightarrow> l \<in> set (loops (spaces arr ! sp)))"
    unfolding lnor_spaces_consistent_def by (rule conjunct1)
  with assms(2) have "case lspacearr arr ! k of
           None \<Rightarrow> True
         | Some sp \<Rightarrow> sp < length (spaces arr)
             \<and> (space_is_fan (spaces arr ! sp)
                  \<longrightarrow> k \<in> set (loops (spaces arr ! sp)))"
    by simp
  then show ?thesis by (simp add: assms(3))
qed


lemma fan_encoded_step:
  assumes wf: "lnor_spaces_consistent arr n"
    and sp: "sp < length (spaces arr)" "space_is_fan (spaces arr ! sp)"
    and k: "k < n"
    and inv: "fan_encoded arr (spec_fan_code arr cv custom uv sp) n sp k st"
  shows "fan_encoded arr (spec_fan_code arr cv custom uv sp) n sp (Suc k)
           (custom_encode_corner arr cv custom uv k st)"
proof -
  let ?M = "set (loops (spaces arr ! sp))"
  let ?code = "spec_fan_code arr cv custom uv sp"
  let ?before = "\<exists>j < k. lspacearr arr ! j = Some sp"
  have lens: "length (fst st) = n" "length (snd st) = n"
    using inv by (simp_all add: fan_encoded_def)
  have encoded: "?before \<Longrightarrow> l \<in> ?M \<Longrightarrow> fst st ! l = False \<and> snd st ! l = ?code" for l
    using inv by (simp add: fan_encoded_def)
  have marked: "\<not> ?before \<Longrightarrow> l \<in> ?M \<Longrightarrow> fst st ! l" for l
    using inv by (simp add: fan_encoded_def)
  have member: "l \<in> ?M \<Longrightarrow> l < n \<and> lspacearr arr ! l = Some sp" for l
    using consistent_member [OF wf sp] by simp
  have now: "(\<exists>j < Suc k. lspacearr arr ! j = Some sp)
             = (?before \<or> lspacearr arr ! k = Some sp)"
    by (auto simp: less_Suc_eq)
  show ?thesis
  proof (cases "lspacearr arr ! k")
    case None
    have notin: "l \<in> ?M \<Longrightarrow> k \<noteq> l" for l
      using member [of l] None by auto
    show ?thesis
      using lens encoded marked notin
      by (auto simp: fan_encoded_def custom_encode_corner_null [OF None] now None)
  next
    case (Some sp')
    note corner = consistent_corner [OF wf k Some]
    show ?thesis
    proof (cases "fst st ! k")
      case False
      have same: "custom_encode_corner arr cv custom uv k st = st"
        using Some False by (rule custom_encode_corner_skip)
      have "sp' = sp \<Longrightarrow> ?before"
      proof (rule ccontr)
        assume eq: "sp' = sp" and nb: "\<not> ?before"
        have "k \<in> ?M" using corner sp(2) eq by simp
        then have "fst st ! k" using nb by (rule marked [rotated])
        with False show False by simp
      qed
      then show ?thesis
        using lens encoded marked
        by (auto simp: fan_encoded_def same now Some)
    next
      case True
      show ?thesis
      proof (cases "space_is_fan (spaces arr ! sp')")
        case False
        have other: "sp' \<noteq> sp" using False sp(2) by auto
        have notin: "l \<in> ?M \<Longrightarrow> k \<noteq> l" for l
          using member [of l] Some other by auto
        show ?thesis
          using lens encoded marked notin other
          by (auto simp: fan_encoded_def custom_encode_corner_single [OF Some True False]
              now Some)
      next
        case fan: True
        note step = custom_encode_corner_fan [OF Some True fan, of cv custom uv]
        show ?thesis
        proof (cases "sp' = sp")
          case True
          have "l \<in> ?M \<Longrightarrow>
                fold (\<lambda>lidx done_loops1. done_loops1[lidx := False])
                  (loops (spaces arr ! sp)) (fst st) ! l = False
                \<and> fold (\<lambda>clnor_data clnors. clnors[clnor_data := ?code])
                    (rev (loops (spaces arr ! sp))) (snd st) ! l = ?code" for l
            using member [of l] lens by (simp add: fold_update_nth)
          then show ?thesis
            using lens
            by (simp add: fan_encoded_def step True now Some fold_update_length)
        next
          case False
          have notin: "l \<in> ?M \<Longrightarrow> l \<notin> set (loops (spaces arr ! sp'))" for l
          proof
            assume a: "l \<in> ?M" and b: "l \<in> set (loops (spaces arr ! sp'))"
            have "lspacearr arr ! l = Some sp'"
              using consistent_member [OF wf _ fan b] corner by simp
            with member [OF a] False show False by simp
          qed
          have "l \<in> ?M \<Longrightarrow>
                fold (\<lambda>lidx done_loops1. done_loops1[lidx := False])
                  (loops (spaces arr ! sp')) (fst st) ! l = fst st ! l
                \<and> fold (\<lambda>clnor_data clnors.
                           clnors[clnor_data := spec_fan_code arr cv custom uv sp'])
                    (rev (loops (spaces arr ! sp'))) (snd st) ! l = snd st ! l" for l
            using notin [of l] by (simp add: fold_update_other)
          then show ?thesis
            using lens encoded marked False
            by (auto simp: fan_encoded_def step now Some fold_update_length)
        qed
      qed
    qed
  qed
qed

lemma fan_encoded_pass:
  assumes wf: "lnor_spaces_consistent arr n"
    and sp: "sp < length (spaces arr)" "space_is_fan (spaces arr ! sp)"
    and inv: "fan_encoded arr (spec_fan_code arr cv custom uv sp) n sp 0 st"
  shows "k \<le> n \<Longrightarrow>
         fan_encoded arr (spec_fan_code arr cv custom uv sp) n sp k
           (fold (custom_encode_corner arr cv custom uv) [0 ..< k] st)"
proof (induction k)
  case 0
  then show ?case using inv by simp
next
  case (Suc k)
  then have "fan_encoded arr (spec_fan_code arr cv custom uv sp) n sp k
               (fold (custom_encode_corner arr cv custom uv) [0 ..< k] st)"
    by simp
  from fan_encoded_step [OF wf sp _ this] Suc.prems show ?case
    by simp
qed

text \<open>
  C8. In the final encoding pass, for every fan space (a space not flagged single) whose
  corners are all still marked in \<^verbatim>\<open>done_loops\<close>, every corner of the fan ends with one and
  the same code in its slot of \<^verbatim>\<open>r_clnors_data\<close>: the code, in the fan's space, of the average
  of the custom normals of the fan's corners. The space array is that of a split: every
  corner of a fan's list points to the fan, and a corner pointing to a fan is in its list.
\<close>

theorem C8_average_broadcast:
  assumes wf: "lnor_spaces_consistent lnors_spacearr numLoops"
    and lens: "length done_loops = numLoops" "length r_clnors_data = numLoops"
    and sp: "sp < length (spaces lnors_spacearr)"
      "flags (spaces lnors_spacearr ! sp) AND MLNOR_SPACE_IS_SINGLE = 0"
    and marked: "\<forall>l \<in> set (loops (spaces lnors_spacearr ! sp)). done_loops ! l"
    and mem: "lidx \<in> set (loops (spaces lnors_spacearr ! sp))"
  shows "snd (custom_encode_pass lnors_spacearr corner_verts r_custom_loopnors use_vertices
                numLoops (done_loops, r_clnors_data)) ! lidx
         = BKE_lnor_space_custom_normal_to_data (spaces lnors_spacearr ! sp)
             (spec_average_v3
                (map (\<lambda>l. r_custom_loopnors ! custom_nor_index use_vertices corner_verts l)
                   (loops (spaces lnors_spacearr ! sp))))"
proof -
  let ?code = "spec_fan_code lnors_spacearr corner_verts r_custom_loopnors use_vertices sp"
  have fan: "space_is_fan (spaces lnors_spacearr ! sp)"
    using sp(2) by (simp add: space_is_fan_def)
  have start: "fan_encoded lnors_spacearr ?code numLoops sp 0 (done_loops, r_clnors_data)"
    using lens marked by (simp add: fan_encoded_def)
  have final: "fan_encoded lnors_spacearr ?code numLoops sp numLoops
      (custom_encode_pass lnors_spacearr corner_verts r_custom_loopnors use_vertices
         numLoops (done_loops, r_clnors_data))"
    unfolding custom_encode_pass_def
    by (rule fan_encoded_pass [OF wf sp(1) fan start]) simp
  have "lidx < numLoops \<and> lspacearr lnors_spacearr ! lidx = Some sp"
    using consistent_member [OF wf sp(1) fan mem] .
  then have "\<exists>j < numLoops. lspacearr lnors_spacearr ! j = Some sp"
    by blast
  with final mem have "snd (custom_encode_pass lnors_spacearr corner_verts r_custom_loopnors
      use_vertices numLoops (done_loops, r_clnors_data)) ! lidx = ?code"
    by (simp add: fan_encoded_def)
  then show ?thesis by (simp add: spec_fan_code_def)
qed


text \<open>Two corners sharing a fan space, and a third with a single space.\<close>

lemma shared_consistent: "lnor_spaces_consistent shared_spacearr 3"
proof -
  have r3: "{0 ..< 3} = {0, 1, 2::nat}" by auto
  have r2: "{0 ..< Suc (Suc 0)} = {0, Suc 0}" by auto
  show ?thesis
    by (simp add: lnor_spaces_consistent_def shared_spacearr_def space_is_fan_def
        MLNOR_SPACE_IS_SINGLE_def unit_space_def r3 r2)
qed

theorem C8_average_broadcast_witness:
  "lnor_spaces_consistent shared_spacearr 3
   \<and> loops (spaces shared_spacearr ! 0) = [1, 0]
   \<and> snd (custom_encode_pass shared_spacearr [] shared_custom_loopnors False 3
            ([True, True, True], [(0, 0), (0, 0), (0, 0)])) ! 0
       = BKE_lnor_space_custom_normal_to_data (spaces shared_spacearr ! 0) (1 / 2, 1 / 2, 0)
   \<and> snd (custom_encode_pass shared_spacearr [] shared_custom_loopnors False 3
            ([True, True, True], [(0, 0), (0, 0), (0, 0)])) ! 1
       = BKE_lnor_space_custom_normal_to_data (spaces shared_spacearr ! 0) (1 / 2, 1 / 2, 0)"
proof -
  have sp: "0 < length (spaces shared_spacearr)"
    "flags (spaces shared_spacearr ! 0) AND MLNOR_SPACE_IS_SINGLE = 0"
    by (simp_all add: shared_spacearr_def unit_space_def)
  have members: "loops (spaces shared_spacearr ! 0) = [1, 0]"
    by (simp add: shared_spacearr_def)
  have marked: "\<forall>l \<in> set (loops (spaces shared_spacearr ! 0)). [True, True, True] ! l"
    by (simp add: members)
  have avg: "spec_average_v3
               (map (\<lambda>l. shared_custom_loopnors ! custom_nor_index False [] l)
                  (loops (spaces shared_spacearr ! 0))) = (1 / 2, 1 / 2, 0)"
    by (simp add: members spec_average_v3_def custom_nor_index_def shared_custom_loopnors_def)
  note claim = C8_average_broadcast [OF shared_consistent _ _ sp marked,
      of "[(0, 0), (0, 0), (0, 0)]" _ "[]" shared_custom_loopnors False, unfolded avg]
  have "snd (custom_encode_pass shared_spacearr [] shared_custom_loopnors False 3
            ([True, True, True], [(0, 0), (0, 0), (0, 0)])) ! 0
       = BKE_lnor_space_custom_normal_to_data (spaces shared_spacearr ! 0) (1 / 2, 1 / 2, 0)"
    by (rule claim) (simp_all add: members)
  moreover have "snd (custom_encode_pass shared_spacearr [] shared_custom_loopnors False 3
            ([True, True, True], [(0, 0), (0, 0), (0, 0)])) ! 1
       = BKE_lnor_space_custom_normal_to_data (spaces shared_spacearr ! 0) (1 / 2, 1 / 2, 0)"
    by (rule claim) (simp_all add: members)
  ultimately show ?thesis
    using shared_consistent members by simp
qed

section \<open>Codec: the round trip\<close>

text \<open>Angles and their cosines.\<close>

lemma sin_sum_squares:
  fixes a b c d :: real
  assumes "c\<^sup>2 = 1 - a\<^sup>2" "d\<^sup>2 = 1 - b\<^sup>2"
  shows "2 * (a * d + c * b)\<^sup>2 - 2 * a\<^sup>2 - 2 * b\<^sup>2 = 4 * a * b * (c * d - a * b)"
proof -
  have "(a * d + c * b)\<^sup>2 = a\<^sup>2 * d\<^sup>2 + 2 * a * b * c * d + c\<^sup>2 * b\<^sup>2"
    by (simp add: power2_eq_square algebra_simps)
  also have "\<dots> = a\<^sup>2 * (1 - b\<^sup>2) + 2 * a * b * c * d + (1 - a\<^sup>2) * b\<^sup>2"
    by (simp only: assms)
  finally show ?thesis
    by (simp add: power2_eq_square algebra_simps)
qed

lemma cos_sum_bound:
  assumes "0 \<le> s" "0 \<le> t" "s + t \<le> pi"
  shows "cos (s + t) \<le> cos s + cos t - 1"
proof -
  define x y where "x = s / 2" and "y = t / 2"
  have s: "s = 2 * x" and t: "t = 2 * y" and st: "s + t = 2 * (x + y)"
    by (simp_all add: x_def y_def)
  have rng: "0 \<le> x" "0 \<le> y" "x \<le> pi" "y \<le> pi" "x + y \<le> pi / 2"
    using assms pi_gt_zero by (simp_all add: x_def y_def)
  have sx: "0 \<le> sin x" using rng by (intro sin_ge_zero) auto
  have sy: "0 \<le> sin y" using rng by (intro sin_ge_zero) auto
  have cxy: "0 \<le> cos (x + y)" using rng by (intro cos_ge_zero) auto
  have px: "(cos x)\<^sup>2 = 1 - (sin x)\<^sup>2" by (simp add: cos_squared_eq)
  have py: "(cos y)\<^sup>2 = 1 - (sin y)\<^sup>2" by (simp add: cos_squared_eq)
  have "cos s + cos t - 1 - cos (s + t)
        = 2 * (sin (x + y))\<^sup>2 - 2 * (sin x)\<^sup>2 - 2 * (sin y)\<^sup>2"
    unfolding st unfolding s t by (simp only: cos_double_sin)
  also have "\<dots> = 2 * (sin x * cos y + cos x * sin y)\<^sup>2 - 2 * (sin x)\<^sup>2 - 2 * (sin y)\<^sup>2"
    by (simp only: sin_add)
  also have "\<dots> = 4 * sin x * sin y * (cos x * cos y - sin x * sin y)"
    by (rule sin_sum_squares [OF px py])
  also have "\<dots> = 4 * sin x * sin y * cos (x + y)"
    by (simp only: cos_add)
  finally have "cos s + cos t - 1 - cos (s + t) = 4 * sin x * sin y * cos (x + y)" .
  moreover have "0 \<le> 4 * sin x * sin y * cos (x + y)" using sx sy cxy by simp
  ultimately show ?thesis by simp
qed

lemma cos_ge_of_abs_le:
  assumes "\<bar>d\<bar> \<le> s" "s \<le> pi"
  shows "cos s \<le> cos d"
proof -
  have "cos s \<le> cos \<bar>d\<bar>"
    using assms by (intro cos_monotone_0_pi_le) auto
  then show ?thesis by simp
qed

lemma cos_lower: "1 - x\<^sup>2 / 2 \<le> cos (x::real)"
proof -
  have "cos x = 1 - 2 * (sin (x / 2))\<^sup>2"
    using cos_double_sin [of "x / 2"] by simp
  moreover have "(sin (x / 2))\<^sup>2 \<le> (x / 2)\<^sup>2"
    using abs_sin_x_le_abs_x [of "x / 2"] by (simp add: abs_le_square_iff [symmetric])
  ultimately show ?thesis by (simp add: power2_eq_square)
qed

lemma floor_half_bounds:
  fixes y :: real
  shows "\<bar>real_of_int \<lfloor>y + 1 / 2\<rfloor> - y\<bar> \<le> 1 / 2"
proof -
  have k1: "real_of_int \<lfloor>y + 1 / 2\<rfloor> \<le> y + 1 / 2" by (rule of_int_floor_le)
  have k2: "y + 1 / 2 < real_of_int \<lfloor>y + 1 / 2\<rfloor> + 1" by (rule real_of_int_floor_add_one_gt)
  show ?thesis using k1 k2 by linarith
qed


text \<open>
  An angle \<open>\<theta>\<close> coded as a factor of the reference angle \<open>ref\<close> (or of its complement to
  the full turn, with a negative sign), the factor rounded to \<open>q\<close>, and decoded again: the
  decoded angle is \<open>\<theta>\<close> up to \<open>pi / 32767\<close>, modulo the full turn.
\<close>

lemma angle_code_range:
  fixes ref \<theta> :: real
  assumes "0 < ref" "0 \<le> \<theta>" "\<theta> \<le> 2 * pi"
  shows "- 1 \<le> (if \<theta> > ref then - (2 * pi - \<theta>) / (2 * pi - ref) else \<theta> / ref)"
    and "(if \<theta> > ref then - (2 * pi - \<theta>) / (2 * pi - ref) else \<theta> / ref) \<le> 1"
  using assms by (auto simp: field_simps)

lemma angle_quant:
  fixes ref \<theta> q :: real
  assumes ref: "0 < ref" "ref \<le> 2 * pi" and th: "0 \<le> \<theta>" "\<theta> \<le> 2 * pi"
    and q: "\<bar>q - (if \<theta> > ref then - (2 * pi - \<theta>) / (2 * pi - ref) else \<theta> / ref)\<bar> \<le> 1 / 65534"
    and pos: "\<theta> \<le> ref \<Longrightarrow> 0 \<le> q" and neg: "\<theta> > ref \<Longrightarrow> q \<le> 0"
  shows "\<exists>d. \<bar>d\<bar> \<le> pi / 32767
           \<and> cos ((if q > 0 then ref else 2 * pi - ref) * q) = cos (\<theta> + d)
           \<and> sin ((if q > 0 then ref else 2 * pi - ref) * q) = sin (\<theta> + d)"
proof (cases "\<theta> > ref")
  case False
  then have x: "\<bar>q - \<theta> / ref\<bar> \<le> 1 / 65534" using q by simp
  have q0: "0 \<le> q" using False pos by simp
  have dec: "(if q > 0 then ref else 2 * pi - ref) * q = ref * q"
    using q0 by (cases "q = 0") auto
  have "ref * q - \<theta> = ref * (q - \<theta> / ref)"
    using ref(1) by (simp add: field_simps)
  then have "\<bar>ref * q - \<theta>\<bar> = ref * \<bar>q - \<theta> / ref\<bar>"
    using ref(1) by (simp add: abs_mult)
  also have "\<dots> \<le> ref * (1 / 65534)"
    using x ref(1) by (intro mult_left_mono) auto
  also have "\<dots> \<le> pi / 32767" using ref(2) by simp
  finally have "\<bar>ref * q - \<theta>\<bar> \<le> pi / 32767" .
  then show ?thesis
    unfolding dec by (intro exI [of _ "ref * q - \<theta>"]) simp
next
  case True
  then have x: "\<bar>q - (- (2 * pi - \<theta>) / (2 * pi - ref))\<bar> \<le> 1 / 65534" using q by simp
  have c: "0 < 2 * pi - ref" using True th(2) by simp
  have q0: "q \<le> 0" using True neg by simp
  have dec: "(if q > 0 then ref else 2 * pi - ref) * q = (2 * pi - ref) * q"
    using q0 by simp
  let ?d = "(2 * pi - ref) * q + 2 * pi - \<theta>"
  have "?d = (2 * pi - ref) * (q - (- (2 * pi - \<theta>) / (2 * pi - ref)))"
    using c by (simp add: field_simps)
  then have "\<bar>?d\<bar> = (2 * pi - ref) * \<bar>q - (- (2 * pi - \<theta>) / (2 * pi - ref))\<bar>"
    using c by (simp only: abs_mult)
  also have "\<dots> \<le> (2 * pi - ref) * (1 / 65534)"
    using x c by (intro mult_left_mono) auto
  also have "\<dots> \<le> pi / 32767" using ref(1) by simp
  finally have bound: "\<bar>?d\<bar> \<le> pi / 32767" .
  have shift: "\<theta> + ?d = (2 * pi - ref) * q + 2 * pi" by simp
  show ?thesis
    unfolding dec
    by (intro exI [of _ ?d] conjI bound) (simp_all only: shift cos_periodic sin_periodic)
qed


text \<open>
  The cosine of the angle between a vector at the angles \<open>\<alpha>\<close>, \<open>\<beta>\<close> and one at \<open>\<alpha> + d\<close>,
  \<open>\<beta>'\<close>, where \<open>g\<close> is the cosine of \<open>\<beta>' - \<beta>\<close>.
\<close>

lemma round_trip_cos_bound:
  fixes a d s g :: real
  assumes "\<bar>d\<bar> \<le> s" "s \<le> pi" "g \<le> 1"
  shows "cos s + g - 1 \<le> cos (a + d) * cos a + sin (a + d) * sin a * g"
proof -
  have "cos (a + d) * cos a + sin (a + d) * sin a = cos ((a + d) - a)"
    by (simp only: cos_diff)
  then have split: "cos (a + d) * cos a + sin (a + d) * sin a * g
      = cos d - sin (a + d) * sin a * (1 - g)"
    by (simp add: algebra_simps)
  have "sin (a + d) * sin a \<le> \<bar>sin (a + d)\<bar> * \<bar>sin a\<bar>"
    by (simp flip: abs_mult)
  also have "\<dots> \<le> 1 * 1"
    by (intro mult_mono abs_sin_le_one) auto
  finally have "sin (a + d) * sin a \<le> 1 * 1" .
  then have "sin (a + d) * sin a * (1 - g) \<le> 1 * (1 - g)"
    using assms(3) by (intro mult_right_mono) auto
  moreover have "cos s \<le> cos d"
    using assms(1,2) by (rule cos_ge_of_abs_le)
  ultimately show ?thesis unfolding split by simp
qed

lemma arccos_le_of_cos_le:
  assumes "0 \<le> s" "s \<le> pi" "cos s \<le> x" "x \<le> 1"
  shows "arccos x \<le> s"
proof -
  have "arccos x \<le> arccos (cos s)"
    using assms cos_ge_minus_one [of s] by (intro arccos_le_arccos) auto
  then show ?thesis using assms by (simp add: arccos_cos)
qed


text \<open>The angle around the axis, from its cosine and the sign of its sine.\<close>

lemma plane_angle:
  fixes cb so :: real
  assumes "cb\<^sup>2 + so\<^sup>2 = 1"
  defines "b \<equiv> (if so < 0 then 2 * pi - arccos cb else arccos cb)"
  shows "cos b = cb" and "sin b = so" and "0 \<le> b" and "b \<le> 2 * pi"
proof -
  have "0 \<le> so\<^sup>2" by simp
  with assms(1) have "cb\<^sup>2 \<le> 1" by linarith
  then have "cb\<^sup>2 \<le> 1\<^sup>2" by simp
  then have "\<bar>cb\<bar> \<le> \<bar>1\<bar>" by (simp only: abs_le_square_iff)
  then have rng: "- 1 \<le> cb" "cb \<le> 1" by auto
  note ac = arccos [OF rng]
  have "sin (arccos cb) = sqrt (1 - cb\<^sup>2)" using rng by (rule sin_arccos)
  also have "1 - cb\<^sup>2 = so\<^sup>2" using assms(1) by simp
  finally have s0: "sin (arccos cb) = \<bar>so\<bar>" by simp
  show "cos b = cb" using ac by (simp add: b_def cos_2pi_minus)
  show "sin b = so" using s0 by (simp add: b_def sin_2pi_minus)
  show "0 \<le> b" using ac pi_gt_zero by (simp add: b_def)
  show "b \<le> 2 * pi" using ac pi_gt_zero by (simp add: b_def)
qed


text \<open>The arc cosine moves the most at the end of its range.\<close>

lemma arccos_modulus:
  fixes x y e :: real
  assumes "- 1 \<le> x" "x \<le> 1" "- 1 \<le> y" "y \<le> 1" "\<bar>x - y\<bar> \<le> e" "e \<le> 2"
  shows "\<bar>arccos x - arccos y\<bar> \<le> arccos (1 - e)"
proof -
  have ordered: "arccos v - arccos u \<le> arccos (1 - e)"
    if "- 1 \<le> u" "u \<le> 1" "- 1 \<le> v" "v \<le> 1" "v \<le> u" "u - v \<le> e" for u v
  proof -
    define a where "a = arccos u"
    define d where "d = arccos v - arccos u"
    have au: "0 \<le> a" "a \<le> pi" "cos a = u" using arccos [OF that(1,2)] by (simp_all add: a_def)
    have av: "0 \<le> arccos v" "arccos v \<le> pi" "cos (arccos v) = v"
      using arccos [OF that(3,4)] by simp_all
    have "arccos u \<le> arccos v" using that by (intro arccos_le_arccos) auto
    then have d: "0 \<le> d" "a + d \<le> pi" "a + d = arccos v" using av by (simp_all add: d_def a_def)
    have "cos (a + d) \<le> cos a + cos d - 1"
      using au(1) d(1,2) by (rule cos_sum_bound)
    then have "1 - (u - v) \<le> cos d" using au(3) av(3) d(3) by simp
    then have low: "1 - e \<le> cos d" using that(6) by simp
    have "d \<le> pi" using d au by simp
    then have "arccos (cos d) = d" using d(1) by (simp add: arccos_cos)
    moreover have "arccos (cos d) \<le> arccos (1 - e)"
      using low assms(6) by (intro arccos_le_arccos) auto
    ultimately show ?thesis by (simp add: d_def)
  qed
  show ?thesis
  proof (cases "x \<le> y")
    case True
    have "arccos x - arccos y \<le> arccos (1 - e)"
      using ordered [of y x] assms True by simp
    moreover have "arccos y \<le> arccos x" using assms True by (intro arccos_le_arccos) auto
    ultimately show ?thesis by simp
  next
    case False
    have "arccos y - arccos x \<le> arccos (1 - e)"
      using ordered [of x y] assms False by simp
    moreover have "arccos x \<le> arccos y" using assms False by (intro arccos_le_arccos) auto
    ultimately show ?thesis by simp
  qed
qed

lemma sqrt_near_one:
  fixes m :: real
  assumes "0 \<le> m"
  shows "\<bar>sqrt m - 1\<bar> \<le> \<bar>m - 1\<bar>"
proof -
  have "\<bar>m - 1\<bar> = \<bar>sqrt m - 1\<bar> * \<bar>sqrt m + 1\<bar>"
  proof -
    have "m - 1 = (sqrt m - 1) * (sqrt m + 1)"
      using assms by (simp add: algebra_simps)
    then show ?thesis by (simp only: abs_mult)
  qed
  moreover have "1 \<le> \<bar>sqrt m + 1\<bar>" using assms by simp
  ultimately show ?thesis
    using mult_left_mono [of 1 "\<bar>sqrt m + 1\<bar>" "\<bar>sqrt m - 1\<bar>"] by simp
qed

lemma sint_short: "- 32768 \<le> k \<Longrightarrow> k < 32768 \<Longrightarrow> sint (word_of_int k :: 16 word) = k"
  by (simp add: sint_sbintrunc' signed_take_bit_int_eq_self)

lemma unit_short_round_trip:
  assumes "- 1 \<le> x" "x \<le> 1"
  shows "\<bar>unit_short_to_float (unit_float_to_short x) - x\<bar> \<le> 1 / 65534"
    and "0 \<le> x \<Longrightarrow> 0 \<le> unit_short_to_float (unit_float_to_short x)"
    and "x \<le> 0 \<Longrightarrow> unit_short_to_float (unit_float_to_short x) \<le> 0"
proof -
  let ?k = "\<lfloor>x * 32767 + 1 / 2\<rfloor>"
  have lo: "- 32767 \<le> ?k" using assms(1) by (simp add: le_floor_iff)
  have hi: "?k \<le> 32767" using assms(2) by (simp add: floor_le_iff)
  have s: "sint (word_of_int ?k :: 16 word) = ?k"
    using lo hi by (intro sint_short) auto
  have q: "unit_short_to_float (unit_float_to_short x) = real_of_int ?k / 32767"
    by (simp add: unit_short_to_float_def unit_float_to_short_def SHRT_MAX_def s)
  have "\<bar>real_of_int ?k - x * 32767\<bar> \<le> 1 / 2" by (rule floor_half_bounds)
  then show "\<bar>unit_short_to_float (unit_float_to_short x) - x\<bar> \<le> 1 / 65534"
    unfolding q by (simp add: abs_le_iff field_simps)
  show "0 \<le> unit_short_to_float (unit_float_to_short x)" if "0 \<le> x"
  proof -
    have "0 \<le> ?k" using that by (simp add: le_floor_iff)
    then show ?thesis unfolding q by simp
  qed
  show "unit_short_to_float (unit_float_to_short x) \<le> 0" if "x \<le> 0"
  proof -
    have "?k \<le> 0" using that by (simp add: floor_le_iff)
    then show ?thesis unfolding q by simp
  qed
qed

lemma unit_short_zero: "unit_short_to_float 0 = 0"
  by (simp add: unit_short_to_float_def)

text \<open>Dot products.\<close>

lemma dot_commute: "dot_v3v3 a b = dot_v3v3 b a"
  by (cases a; cases b) simp

lemma dot_mul: "dot_v3v3 a (mul_v3_v3fl b f) = f * dot_v3v3 a b"
  by (cases a; cases b) (simp add: algebra_simps)

lemma dot_add: "dot_v3v3 a (add_v3_v3 b c) = dot_v3v3 a b + dot_v3v3 a c"
  by (cases a; cases b; cases c) (simp add: algebra_simps)

lemma dot_madd: "dot_v3v3 a (madd_v3_v3fl r b f) = dot_v3v3 a r + f * dot_v3v3 a b"
  by (cases a; cases b; cases r) (simp add: algebra_simps)

lemma dot_zero: "dot_v3v3 a zero_v3 = 0"
  by (cases a) (simp add: zero_v3_def)

lemma dot_cross_left: "dot_v3v3 a (cross_v3_v3v3 a b) = 0"
  by (cases a; cases b) (simp add: algebra_simps)

lemma dot_cross_right: "dot_v3v3 b (cross_v3_v3v3 a b) = 0"
  by (cases a; cases b) (simp add: algebra_simps)

lemma cross_norm:
  "dot_v3v3 (cross_v3_v3v3 a b) (cross_v3_v3v3 a b)
     = dot_v3v3 a a * dot_v3v3 b b - (dot_v3v3 a b)\<^sup>2"
  by (cases a; cases b) (simp add: power2_eq_square algebra_simps)

lemma parseval:
  "(dot_v3v3 w (cross_v3_v3v3 a b))\<^sup>2
     = dot_v3v3 w w * dot_v3v3 a a * dot_v3v3 b b
       + 2 * dot_v3v3 w a * dot_v3v3 a b * dot_v3v3 w b
       - dot_v3v3 w w * (dot_v3v3 a b)\<^sup>2
       - dot_v3v3 a a * (dot_v3v3 w b)\<^sup>2
       - dot_v3v3 b b * (dot_v3v3 w a)\<^sup>2"
  by (cases a; cases b; cases w) (simp add: power2_eq_square algebra_simps)

text \<open>The decoder in closed form.\<close>

lemma frame_vector_flat:
  "frame_vector sp a 0
     = madd_v3_v3fl (mul_v3_v3fl (vec_lnor sp) (cos a)) (vec_ref sp) (sin a)"
  by (cases "vec_lnor sp"; cases "vec_ref sp"; cases "vec_ortho sp")
    (simp add: frame_vector_def)

lemma frame_vector_axis: "frame_vector sp 0 b = vec_lnor sp"
  by (cases "vec_lnor sp"; cases "vec_ref sp"; cases "vec_ortho sp")
    (simp add: frame_vector_def)

lemma decoder_frame_vector:
  assumes "ref_alpha sp \<noteq> 0" "ref_beta sp \<noteq> 0"
  shows "BKE_lnor_space_custom_data_to_normal sp (d0, d1)
     = frame_vector sp (decoded_angle (ref_alpha sp) (unit_short_to_float d0))
         (decoded_angle (ref_beta sp) (unit_short_to_float d1))"
proof (cases "d0 = 0")
  case True
  then show ?thesis
    by (simp add: BKE_lnor_space_custom_data_to_normal_def unit_short_zero decoded_angle_def
        frame_vector_axis)
next
  case False
  show ?thesis
  proof (cases "unit_short_to_float d1 = 0")
    case True
    then show ?thesis
      using False assms
      by (simp add: BKE_lnor_space_custom_data_to_normal_def Let_def decoded_angle_def
          frame_vector_flat mult.commute [of pi 2])
  next
    case nz: False
    then show ?thesis
      using False assms
      by (simp add: BKE_lnor_space_custom_data_to_normal_def Let_def decoded_angle_def
          frame_vector_def mult.commute [of pi 2])
  qed
qed

text \<open>A vector of the frame is a unit vector, and its product with any other vector.\<close>

lemma frame_facts:
  assumes "lnor_space_frame sp"
  shows "dot_v3v3 (vec_lnor sp) (vec_lnor sp) = 1"
    and "dot_v3v3 (vec_ref sp) (vec_ref sp) = 1"
    and "dot_v3v3 (vec_ortho sp) (vec_ortho sp) = 1"
    and "dot_v3v3 (vec_lnor sp) (vec_ref sp) = 0"
    and "dot_v3v3 (vec_lnor sp) (vec_ortho sp) = 0"
    and "dot_v3v3 (vec_ref sp) (vec_ortho sp) = 0"
  using assms
  by (simp_all add: lnor_space_frame_def dot_cross_left dot_cross_right cross_norm)

lemma frame_angles:
  assumes "lnor_space_frame sp"
  shows "0 < ref_alpha sp" "ref_alpha sp \<le> pi" "0 < ref_beta sp" "ref_beta sp \<le> 2 * pi"
  using assms by (simp_all add: lnor_space_frame_def)

lemma dot_frame_vector:
  "dot_v3v3 v (frame_vector sp a b)
     = cos a * dot_v3v3 v (vec_lnor sp)
       + sin a * (cos b * dot_v3v3 v (vec_ref sp) + sin b * dot_v3v3 v (vec_ortho sp))"
  by (simp add: frame_vector_def dot_madd dot_mul algebra_simps)

lemma frame_vector_unit:
  assumes "lnor_space_frame sp"
  shows "dot_v3v3 (frame_vector sp a b) (frame_vector sp a b) = 1"
proof -
  note f = frame_facts [OF assms]
  have l: "dot_v3v3 (frame_vector sp a b) (vec_lnor sp) = cos a"
    by (subst dot_commute) (simp add: dot_frame_vector f)
  have r: "dot_v3v3 (frame_vector sp a b) (vec_ref sp) = sin a * cos b"
    by (subst dot_commute) (simp add: dot_frame_vector f dot_commute [of "vec_ref sp" "vec_lnor sp"])
  have o: "dot_v3v3 (frame_vector sp a b) (vec_ortho sp) = sin a * sin b"
    by (subst dot_commute)
      (simp add: dot_frame_vector f dot_commute [of "vec_ortho sp" "vec_lnor sp"]
        dot_commute [of "vec_ortho sp" "vec_ref sp"])
  have "dot_v3v3 (frame_vector sp a b) (frame_vector sp a b)
        = cos a * cos a + sin a * (cos b * (sin a * cos b) + sin b * (sin a * sin b))"
    by (subst dot_frame_vector) (simp only: l r o)
  also have "\<dots> = (cos a)\<^sup>2 + (sin a)\<^sup>2 * ((cos b)\<^sup>2 + (sin b)\<^sup>2)"
    by algebra
  also have "\<dots> = 1" by simp
  finally show ?thesis .
qed

lemma dot_self_nonneg: "0 \<le> dot_v3v3 a a"
  by (cases a) simp

lemma saacos_arccos: "- 1 \<le> x \<Longrightarrow> x \<le> 1 \<Longrightarrow> saacos x = arccos x"
  by (auto simp: saacos_def)

text \<open>
  The part of a vector \<open>v\<close> orthogonal to the axis: its products with the axes of the frame,
  and its length.
\<close>

lemma plane_part:
  fixes sp :: MLoopNorSpace and v :: float3
  assumes frame: "lnor_space_frame sp"
  defines "c \<equiv> dot_v3v3 (vec_lnor sp) v"
  defines "w \<equiv> add_v3_v3 (mul_v3_v3fl (vec_lnor sp) (- c)) v"
  shows "dot_v3v3 (vec_lnor sp) w = 0"
    and "dot_v3v3 (vec_ref sp) w = dot_v3v3 (vec_ref sp) v"
    and "dot_v3v3 (vec_ortho sp) w = dot_v3v3 (vec_ortho sp) v"
    and "dot_v3v3 w w = dot_v3v3 v v - c\<^sup>2"
    and "(dot_v3v3 (vec_ref sp) v)\<^sup>2 + (dot_v3v3 (vec_ortho sp) v)\<^sup>2 = dot_v3v3 v v - c\<^sup>2"
    and "c\<^sup>2 \<le> dot_v3v3 v v"
proof -
  note f = frame_facts [OF frame]
  show l: "dot_v3v3 (vec_lnor sp) w = 0"
    by (simp add: w_def dot_add dot_mul f c_def)
  show r: "dot_v3v3 (vec_ref sp) w = dot_v3v3 (vec_ref sp) v"
    by (simp add: w_def dot_add dot_mul f dot_commute [of "vec_ref sp" "vec_lnor sp"])
  show o: "dot_v3v3 (vec_ortho sp) w = dot_v3v3 (vec_ortho sp) v"
    by (simp add: w_def dot_add dot_mul f dot_commute [of "vec_ortho sp" "vec_lnor sp"])
  have vw: "dot_v3v3 v w = dot_v3v3 v v - c\<^sup>2"
    by (simp add: w_def dot_add dot_mul c_def dot_commute [of v "vec_lnor sp"]
        power2_eq_square)
  have "dot_v3v3 w (add_v3_v3 (mul_v3_v3fl (vec_lnor sp) (- c)) v)
          = - c * dot_v3v3 w (vec_lnor sp) + dot_v3v3 w v"
    by (simp only: dot_add dot_mul)
  then have "dot_v3v3 w w = - c * dot_v3v3 w (vec_lnor sp) + dot_v3v3 w v"
    by (simp only: w_def [symmetric])
  then show ww: "dot_v3v3 w w = dot_v3v3 v v - c\<^sup>2"
    using l vw by (simp add: dot_commute [of w "vec_lnor sp"] dot_commute [of w v])
  have ortho: "vec_ortho sp = cross_v3_v3v3 (vec_lnor sp) (vec_ref sp)"
    using frame by (simp add: lnor_space_frame_def)
  have "(dot_v3v3 w (vec_ortho sp))\<^sup>2 = dot_v3v3 w w - (dot_v3v3 w (vec_ref sp))\<^sup>2"
    unfolding ortho parseval using l f by (simp add: dot_commute [of w "vec_lnor sp"])
  then show "(dot_v3v3 (vec_ref sp) v)\<^sup>2 + (dot_v3v3 (vec_ortho sp) v)\<^sup>2
      = dot_v3v3 v v - c\<^sup>2"
    using r o ww
    by (simp add: dot_commute [of w "vec_ortho sp"] dot_commute [of w "vec_ref sp"])
  show "c\<^sup>2 \<le> dot_v3v3 v v" using dot_self_nonneg [of w] ww by simp
qed

text \<open>The product of a vector with a unit vector is at most its length.\<close>

lemma dot_unit_square:
  assumes "dot_v3v3 b b = 1"
  shows "(dot_v3v3 b a)\<^sup>2 \<le> dot_v3v3 a a"
proof -
  define c where "c = dot_v3v3 b a"
  define w where "w = add_v3_v3 (mul_v3_v3fl b (- c)) a"
  have bw: "dot_v3v3 b w = 0"
    by (simp add: w_def dot_add dot_mul assms c_def)
  have aw: "dot_v3v3 a w = dot_v3v3 a a - c\<^sup>2"
    by (simp add: w_def dot_add dot_mul c_def dot_commute [of a b] power2_eq_square)
  have "dot_v3v3 w (add_v3_v3 (mul_v3_v3fl b (- c)) a)
          = - c * dot_v3v3 w b + dot_v3v3 w a"
    by (simp only: dot_add dot_mul)
  then have "dot_v3v3 w w = - c * dot_v3v3 w b + dot_v3v3 w a"
    by (simp only: w_def [symmetric])
  then have "dot_v3v3 w w = dot_v3v3 a a - c\<^sup>2"
    using bw aw by (simp add: dot_commute [of w b] dot_commute [of w a])
  then show ?thesis using dot_self_nonneg [of w] by (simp add: c_def)
qed

text \<open>The encoder without its shortcut for the axis.\<close>

lemma encoder_unfold:
  assumes "\<not> is_zero_v3 v" "\<not> compare_v3v3 (vec_lnor sp) v float_1e_4"
  defines "vec \<equiv> fst (encoder_vec sp v)"
  defines "beta \<equiv> (if dot_v3v3 (vec_ortho sp) vec < 0
                      then 2 * pi - saacos (dot_v3v3 (vec_ref sp) vec)
                      else saacos (dot_v3v3 (vec_ref sp) vec))"
  shows "BKE_lnor_space_custom_normal_to_data sp v
     = (unit_float_to_short
          (coded_factor (ref_alpha sp) (saacos (dot_v3v3 (vec_lnor sp) v))),
        if dot_v3v3 (vec_ref sp) vec < LNOR_SPACE_TRIGO_THRESHOLD
        then unit_float_to_short (coded_factor (ref_beta sp) beta) else 0)"
  using assms(1,2)
  by (simp add: BKE_lnor_space_custom_normal_to_data_def Let_def coded_factor_def vec_def
      beta_def encoder_vec_def mult.commute [of pi 2])

text \<open>
  A vector that is not parallel to the axis, by its length, its angle \<open>\<alpha>\<close> from the axis and
  the angle \<open>\<beta>\<close> around the axis as the encoder computes it.
\<close>

lemma vector_angles:
  fixes sp :: MLoopNorSpace and v :: float3
  assumes frame: "lnor_space_frame sp" and pos: "0 < dot_v3v3 v v"
    and nd: "normalize_eps < dot_v3v3 v v - (dot_v3v3 (vec_lnor sp) v)\<^sup>2"
  defines "alpha \<equiv> arccos (dot_v3v3 (vec_lnor sp) v / sqrt (dot_v3v3 v v))"
  defines "vec \<equiv> fst (encoder_vec sp v)"
  defines "beta \<equiv> (if dot_v3v3 (vec_ortho sp) vec < 0
                      then 2 * pi - saacos (dot_v3v3 (vec_ref sp) vec)
                      else saacos (dot_v3v3 (vec_ref sp) vec))"
  shows "dot_v3v3 v (vec_lnor sp) = sqrt (dot_v3v3 v v) * cos alpha"
    and "dot_v3v3 v (vec_ref sp) = sqrt (dot_v3v3 v v) * (sin alpha * cos beta)"
    and "dot_v3v3 v (vec_ortho sp) = sqrt (dot_v3v3 v v) * (sin alpha * sin beta)"
    and "0 \<le> beta" and "beta \<le> 2 * pi"
    and "cos beta = dot_v3v3 (vec_ref sp) vec"
proof -
  define m where "m = dot_v3v3 v v"
  define c where "c = dot_v3v3 (vec_lnor sp) v"
  define w where "w = add_v3_v3 (mul_v3_v3fl (vec_lnor sp) (- c)) v"
  define n where "n = sqrt (m - c\<^sup>2)"
  note pp = plane_part [OF frame, of v, folded c_def m_def, folded w_def]
  have eps: "0 < normalize_eps" by (simp add: normalize_eps_def)
  have m: "0 < m" using pos by (simp add: m_def)
  have diff: "0 < m - c\<^sup>2" using nd eps by (simp add: c_def m_def)
  then have n: "0 < n" "n\<^sup>2 = m - c\<^sup>2" by (simp_all add: n_def)
  have "(c / sqrt m)\<^sup>2 \<le> 1\<^sup>2"
    using pp(6) m by (simp add: power_divide)
  then have "\<bar>c / sqrt m\<bar> \<le> \<bar>1::real\<bar>" by (simp only: abs_le_square_iff)
  then have rng: "- 1 \<le> c / sqrt m" "c / sqrt m \<le> 1" by linarith+
  have alpha: "alpha = arccos (c / sqrt m)" by (simp add: alpha_def c_def m_def)
  have cos_alpha: "cos alpha = c / sqrt m"
    unfolding alpha using rng by (rule cos_arccos)
  have "sin alpha = sqrt (1 - (c / sqrt m)\<^sup>2)"
    unfolding alpha using rng by (rule sin_arccos)
  also have "1 - (c / sqrt m)\<^sup>2 = (m - c\<^sup>2) / m"
    using m by (simp add: power_divide field_simps)
  finally have sin_alpha: "sin alpha = n / sqrt m"
    by (simp add: n_def real_sqrt_divide)
  have vec: "vec = mul_v3_v3fl w (1 / n)"
    using nd pp(4)
    by (simp add: vec_def encoder_vec_def normalize_v3_v3_def Let_def n_def
        flip: c_def w_def m_def)
  have cb: "dot_v3v3 (vec_ref sp) vec = dot_v3v3 (vec_ref sp) v / n"
    using pp(2) by (simp add: vec dot_mul)
  have so: "dot_v3v3 (vec_ortho sp) vec = dot_v3v3 (vec_ortho sp) v / n"
    using pp(3) by (simp add: vec dot_mul)
  have "(dot_v3v3 (vec_ref sp) vec)\<^sup>2 + (dot_v3v3 (vec_ortho sp) vec)\<^sup>2
        = ((dot_v3v3 (vec_ref sp) v)\<^sup>2 + (dot_v3v3 (vec_ortho sp) v)\<^sup>2) / n\<^sup>2"
    by (simp add: cb so power_divide add_divide_distrib)
  also have "\<dots> = 1" using pp(5) n diff by simp
  finally have circle:
    "(dot_v3v3 (vec_ref sp) vec)\<^sup>2 + (dot_v3v3 (vec_ortho sp) vec)\<^sup>2 = 1" .
  then have "(dot_v3v3 (vec_ref sp) vec)\<^sup>2 \<le> 1"
    using zero_le_power2 [of "dot_v3v3 (vec_ortho sp) vec"] by linarith
  then have "(dot_v3v3 (vec_ref sp) vec)\<^sup>2 \<le> 1\<^sup>2" by simp
  then have "\<bar>dot_v3v3 (vec_ref sp) vec\<bar> \<le> \<bar>1\<bar>" by (simp only: abs_le_square_iff)
  then have "saacos (dot_v3v3 (vec_ref sp) vec) = arccos (dot_v3v3 (vec_ref sp) vec)"
    by (intro saacos_arccos) auto
  then have beta: "beta = (if dot_v3v3 (vec_ortho sp) vec < 0
                           then 2 * pi - arccos (dot_v3v3 (vec_ref sp) vec)
                           else arccos (dot_v3v3 (vec_ref sp) vec))"
    by (simp add: beta_def)
  note pa = plane_angle [OF circle, folded beta]
  have "dot_v3v3 v (vec_lnor sp) = c"
    unfolding c_def by (rule dot_commute)
  then show "dot_v3v3 v (vec_lnor sp) = sqrt (dot_v3v3 v v) * cos alpha"
    using m by (simp add: cos_alpha flip: m_def)
  have "dot_v3v3 v (vec_ref sp) = n * cos beta"
    using n(1) by (simp add: pa(1) cb dot_commute [of v "vec_ref sp"])
  then show "dot_v3v3 v (vec_ref sp) = sqrt (dot_v3v3 v v) * (sin alpha * cos beta)"
    using m by (simp add: sin_alpha flip: m_def)
  have "dot_v3v3 v (vec_ortho sp) = n * sin beta"
    using n(1) by (simp add: pa(2) so dot_commute [of v "vec_ortho sp"])
  then show "dot_v3v3 v (vec_ortho sp) = sqrt (dot_v3v3 v v) * (sin alpha * sin beta)"
    using m by (simp add: sin_alpha flip: m_def)
  show "0 \<le> beta" "beta \<le> 2 * pi" using pa by simp_all
  show "cos beta = dot_v3v3 (vec_ref sp) vec" by (rule pa(1))
qed

lemma positive_not_zero: "0 < dot_v3v3 v v \<Longrightarrow> \<not> is_zero_v3 v"
  by (cases v) auto

lemma saacos_range: "0 \<le> saacos x" "saacos x \<le> pi"
proof -
  show "0 \<le> saacos x"
    using arccos_lbound [of x] pi_gt_zero by (auto simp: saacos_def)
  show "saacos x \<le> pi"
    using arccos_ubound [of x] pi_gt_zero by (auto simp: saacos_def)
qed

text \<open>The clamped arc cosine of a number near one in the range of the cosine.\<close>

lemma saacos_near:
  fixes x y e :: real
  assumes "- 1 \<le> x" "x \<le> 1" "\<bar>y - x\<bar> \<le> e" "e \<le> 2"
  shows "\<bar>saacos y - arccos x\<bar> \<le> arccos (1 - e)"
proof -
  define z where "z = max (- 1) (min 1 y)"
  have z: "- 1 \<le> z" "z \<le> 1" "\<bar>z - x\<bar> \<le> e"
    using assms by (auto simp: z_def max_def min_def)
  have "saacos y = arccos z"
    by (auto simp: saacos_def z_def max_def min_def)
  then show ?thesis
    using arccos_modulus [OF z(1,2) assms(1,2) z(3) assms(4)] by simp
qed

text \<open>An angle through the coder and the decoder.\<close>

lemma coded_angle:
  assumes ref: "0 < ref" "ref \<le> 2 * pi" and th: "0 \<le> \<theta>" "\<theta> \<le> 2 * pi"
  shows "\<exists>d. \<bar>d\<bar> \<le> pi / 32767
     \<and> cos (decoded_angle ref (unit_short_to_float (unit_float_to_short (coded_factor ref \<theta>))))
         = cos (\<theta> + d)
     \<and> sin (decoded_angle ref (unit_short_to_float (unit_float_to_short (coded_factor ref \<theta>))))
         = sin (\<theta> + d)"
proof -
  let ?x = "coded_factor ref \<theta>"
  let ?q = "unit_short_to_float (unit_float_to_short ?x)"
  have rng: "- 1 \<le> ?x" "?x \<le> 1"
    unfolding coded_factor_def using ref(1) th by (rule angle_code_range)+
  note rt = unit_short_round_trip [OF rng]
  have pos: "0 \<le> ?q" if "\<theta> \<le> ref"
  proof -
    have "0 \<le> ?x" using that ref(1) th(1) by (simp add: coded_factor_def)
    then show ?thesis by (rule rt(2))
  qed
  have neg: "?q \<le> 0" if "\<theta> > ref"
  proof -
    have "?x \<le> 0" using that ref(1) th(2) by (simp add: coded_factor_def field_simps)
    then show ?thesis by (rule rt(3))
  qed
  show ?thesis
    unfolding decoded_angle_def coded_factor_def
    by (rule angle_quant [OF ref th rt(1) [unfolded coded_factor_def]
          pos [unfolded coded_factor_def] neg [unfolded coded_factor_def]])
qed

text \<open>
  The angle from the axis as the encoder computes it, \<^verbatim>\<open>saacosf(cos_alpha)\<close>, against the angle
  of the vector itself: they differ when the vector is not of unit length.
\<close>

lemma encoder_alpha_error:
  fixes sp :: MLoopNorSpace and v :: float3
  assumes frame: "lnor_space_frame sp"
    and near: "\<bar>dot_v3v3 v v - 1\<bar> \<le> \<delta>" "\<delta> \<le> 1 / 2"
  shows "\<bar>saacos (dot_v3v3 (vec_lnor sp) v)
           - arccos (dot_v3v3 (vec_lnor sp) v / sqrt (dot_v3v3 v v))\<bar> \<le> arccos (1 - \<delta>)"
proof -
  define m where "m = dot_v3v3 v v"
  define c where "c = dot_v3v3 (vec_lnor sp) v"
  define x where "x = c / sqrt m"
  have m: "0 < m" using near by (simp add: m_def abs_le_iff)
  then have rm: "0 < sqrt m" by simp
  have "c\<^sup>2 \<le> m"
    using plane_part(6) [OF frame, of v] by (simp add: c_def m_def)
  then have "x\<^sup>2 \<le> 1\<^sup>2" using m by (simp add: x_def power_divide)
  then have "\<bar>x\<bar> \<le> \<bar>1::real\<bar>" by (simp only: abs_le_square_iff)
  then have x: "\<bar>x\<bar> \<le> 1" "- 1 \<le> x" "x \<le> 1" by linarith+
  have c: "c = x * sqrt m" using rm by (simp add: x_def)
  have "c - x = x * (sqrt m - 1)" by (simp add: c algebra_simps)
  then have "\<bar>c - x\<bar> = \<bar>x\<bar> * \<bar>sqrt m - 1\<bar>" by (simp only: abs_mult)
  also have "\<dots> \<le> 1 * \<bar>m - 1\<bar>"
    using x(1) sqrt_near_one [of m] m by (intro mult_mono) auto
  finally have "\<bar>c - x\<bar> \<le> \<delta>" using near(1) by (simp add: m_def)
  then have "\<bar>saacos c - arccos x\<bar> \<le> arccos (1 - \<delta>)"
    using x(2,3) near(2) by (intro saacos_near) auto
  then show ?thesis by (simp add: c_def x_def m_def)
qed

text \<open>
  The round trip of a vector of about unit length for which the encoder takes its long path
  and \<^verbatim>\<open>normalize_v3\<close> succeeds: \<open>g\<close> is the cosine of the error around the axis.
\<close>

lemma round_trip_regular:
  fixes sp :: MLoopNorSpace and v :: float3
  assumes frame: "lnor_space_frame sp"
    and near: "\<bar>dot_v3v3 v v - 1\<bar> \<le> \<delta>" "\<delta> \<le> 1 / 2"
    and nd: "normalize_eps < dot_v3v3 v v - (dot_v3v3 (vec_lnor sp) v)\<^sup>2"
    and na: "\<not> compare_v3v3 (vec_lnor sp) v float_1e_4"
  shows "\<exists>g. g \<le> 1
     \<and> (if dot_v3v3 (vec_ref sp) (fst (encoder_vec sp v)) < LNOR_SPACE_TRIGO_THRESHOLD
         then cos (pi / 32767) \<le> g
         else g = dot_v3v3 (vec_ref sp) (fst (encoder_vec sp v)))
     \<and> cos (pi / 32767 + arccos (1 - \<delta>)) + g - 1
         \<le> dot_v3v3 v (lnor_round_trip sp v) / sqrt (dot_v3v3 v v)"
proof -
  define m where "m = dot_v3v3 v v"
  define vec where "vec = fst (encoder_vec sp v)"
  define alpha where "alpha = saacos (dot_v3v3 (vec_lnor sp) v)"
  define astar where "astar = arccos (dot_v3v3 (vec_lnor sp) v / sqrt (dot_v3v3 v v))"
  define beta where "beta = (if dot_v3v3 (vec_ortho sp) vec < 0
                      then 2 * pi - saacos (dot_v3v3 (vec_ref sp) vec)
                      else saacos (dot_v3v3 (vec_ref sp) vec))"
  define d1 where "d1 = (if dot_v3v3 (vec_ref sp) vec < LNOR_SPACE_TRIGO_THRESHOLD
        then unit_float_to_short (coded_factor (ref_beta sp) beta) else 0)"
  define a' where "a' = decoded_angle (ref_alpha sp)
      (unit_short_to_float (unit_float_to_short (coded_factor (ref_alpha sp) alpha)))"
  define b' where "b' = decoded_angle (ref_beta sp) (unit_short_to_float d1)"
  define K where "K = arccos (1 - \<delta>)"
  have d0: "0 \<le> \<delta>" using near(1) by linarith
  have m: "0 < dot_v3v3 v v" using near by (simp add: abs_le_iff)
  then have rm: "0 < sqrt m" by (simp add: m_def)
  note fa = frame_angles [OF frame]
  note ua = vector_angles [OF frame m nd, folded vec_def, folded astar_def beta_def,
      folded m_def]
  have K: "0 \<le> K" "K \<le> pi / 2"
  proof -
    show "0 \<le> K" unfolding K_def using d0 near(2) by (intro arccos_lbound) auto
    show "K \<le> pi / 2" unfolding K_def using d0 near(2) by (intro arccos_le_pi2) auto
  qed
  have kappa: "\<bar>alpha - astar\<bar> \<le> K"
    unfolding alpha_def astar_def K_def by (rule encoder_alpha_error [OF frame near])
  have enc: "BKE_lnor_space_custom_normal_to_data sp v
      = (unit_float_to_short (coded_factor (ref_alpha sp) alpha), d1)"
    unfolding d1_def beta_def alpha_def vec_def
    by (rule encoder_unfold [OF positive_not_zero [OF m] na])
  have rt: "lnor_round_trip sp v = frame_vector sp a' b'"
    unfolding lnor_round_trip_def enc a'_def b'_def
    using fa by (intro decoder_frame_vector) auto
  obtain da where da: "\<bar>da\<bar> \<le> pi / 32767" "cos a' = cos (alpha + da)"
      "sin a' = sin (alpha + da)"
    using coded_angle [of "ref_alpha sp" alpha] fa saacos_range [of "dot_v3v3 (vec_lnor sp) v"]
      pi_gt_zero
    unfolding a'_def alpha_def by auto
  define d where "d = alpha - astar + da"
  have ad: "alpha + da = astar + d" by (simp add: d_def)
  have d: "\<bar>d\<bar> \<le> pi / 32767 + K" using da(1) kappa by (simp add: d_def)
  define g where "g = cos b' * cos beta + sin b' * sin beta"
  have "dot_v3v3 v (lnor_round_trip sp v)
      = sqrt m * (cos (astar + d) * cos astar + sin (astar + d) * sin astar * g)"
    unfolding rt dot_frame_vector ua(1,2,3) da(2,3) ad g_def by (simp add: algebra_simps)
  then have dot: "dot_v3v3 v (lnor_round_trip sp v) / sqrt m
      = cos (astar + d) * cos astar + sin (astar + d) * sin astar * g"
    using rm by simp
  have g: "g \<le> 1 \<and> (if dot_v3v3 (vec_ref sp) vec < LNOR_SPACE_TRIGO_THRESHOLD
         then cos (pi / 32767) \<le> g else g = dot_v3v3 (vec_ref sp) vec)"
  proof (cases "dot_v3v3 (vec_ref sp) vec < LNOR_SPACE_TRIGO_THRESHOLD")
    case True
    obtain db where db: "\<bar>db\<bar> \<le> pi / 32767" "cos b' = cos (beta + db)"
        "sin b' = sin (beta + db)"
      using coded_angle [of "ref_beta sp" beta] fa ua(4,5) True
      unfolding b'_def d1_def by auto
    have "g = cos ((beta + db) - beta)"
      unfolding g_def db(2,3) by (simp only: cos_diff)
    then have gd: "g = cos db" by simp
    have "cos (pi / 32767) \<le> cos db"
      using db(1) pi_gt_zero by (intro cos_ge_of_abs_le) auto
    then show ?thesis using True by (simp add: gd)
  next
    case False
    then have "b' = 0"
      by (simp add: b'_def d1_def unit_short_zero decoded_angle_def)
    then have gb: "g = cos beta" by (simp add: g_def)
    then have "g \<le> 1" by simp
    then show ?thesis using False gb ua(6) by simp
  qed
  have "pi / 32767 + K \<le> pi" using K(2) pi_gt_zero by linarith
  then have "cos (pi / 32767 + K) + g - 1
      \<le> dot_v3v3 v (lnor_round_trip sp v) / sqrt m"
    unfolding dot using d g by (intro round_trip_cos_bound) auto
  then show ?thesis
    using g unfolding vec_def K_def m_def by (intro exI [of _ g]) simp
qed

text \<open>The shortcut of the encoder: the vector is within the tolerance of the axis.\<close>

lemma axis_shortcut_dot:
  assumes a: "dot_v3v3 a a = 1" and m: "1 / 4 \<le> dot_v3v3 v v"
    and near: "compare_v3v3 a v float_1e_4"
  shows "LNOR_SPACE_TRIGO_THRESHOLD \<le> dot_v3v3 v a / sqrt (dot_v3v3 v v)"
proof -
  define r where "r = sqrt (dot_v3v3 v v)"
  obtain a0 a1 a2 where av: "a = (a0, a1, a2)" by (cases a)
  obtain v0 v1 v2 where v: "v = (v0, v1, v2)" by (cases v)
  have "sqrt ((1 / 2)\<^sup>2) \<le> r"
    unfolding r_def using m by (intro real_sqrt_le_mono) (simp add: power2_eq_square)
  then have r: "1 / 2 \<le> r" by simp
  have rr: "r\<^sup>2 = dot_v3v3 v v" using m by (simp add: r_def)
  have cmp: "\<bar>a0 - v0\<bar> \<le> \<bar>float_1e_4\<bar>" "\<bar>a1 - v1\<bar> \<le> \<bar>float_1e_4\<bar>"
      "\<bar>a2 - v2\<bar> \<le> \<bar>float_1e_4\<bar>"
    using near by (simp_all add: av v compare_ff_def float_1e_4_def)
  have sq: "(a0 - v0)\<^sup>2 \<le> float_1e_4\<^sup>2" "(a1 - v1)\<^sup>2 \<le> float_1e_4\<^sup>2"
      "(a2 - v2)\<^sup>2 \<le> float_1e_4\<^sup>2"
    using cmp by (simp_all only: abs_le_square_iff)
  have tol: "float_1e_4\<^sup>2 \<le> 1 / 10 ^ 7"
    by (simp add: float_1e_4_def power2_eq_square)
  have "(a0 - v0)\<^sup>2 + (a1 - v1)\<^sup>2 + (a2 - v2)\<^sup>2
        = dot_v3v3 a a + dot_v3v3 v v - 2 * dot_v3v3 v a"
    by (simp add: av v power2_eq_square algebra_simps)
  then have "1 + r\<^sup>2 - 2 * dot_v3v3 v a \<le> 3 / 10 ^ 7"
    using sq tol a rr by linarith
  moreover have "0 \<le> (r - 1)\<^sup>2" by simp
  then have "2 * r \<le> 1 + r\<^sup>2" by (simp add: power2_eq_square algebra_simps)
  ultimately have "r - 3 / (2 * 10 ^ 7) \<le> dot_v3v3 v a" by simp
  moreover have "LNOR_SPACE_TRIGO_THRESHOLD * r \<le> r - 3 / (2 * 10 ^ 7)"
    using r by (simp add: LNOR_SPACE_TRIGO_THRESHOLD_def)
  ultimately have "LNOR_SPACE_TRIGO_THRESHOLD * r \<le> dot_v3v3 v a" by linarith
  then show ?thesis
    using r by (simp add: le_divide_eq flip: r_def)
qed

lemma axis_shortcut_round_trip:
  assumes "compare_v3v3 (vec_lnor sp) v float_1e_4"
  shows "lnor_round_trip sp v = vec_lnor sp"
  using assms
  by (simp add: lnor_round_trip_def BKE_lnor_space_custom_normal_to_data_def
      BKE_lnor_space_custom_data_to_normal_def)

text \<open>Numbers.\<close>

lemma threshold_range:
  "1 / 2 \<le> LNOR_SPACE_TRIGO_THRESHOLD" "LNOR_SPACE_TRIGO_THRESHOLD + 1 / 10 ^ 5 \<le> 1"
  by (simp_all add: LNOR_SPACE_TRIGO_THRESHOLD_def)

lemma cos_step_lower: "LNOR_SPACE_TRIGO_THRESHOLD \<le> cos (pi / 32767)"
proof -
  have "0 \<le> pi / 32767" using pi_gt_zero by simp
  moreover have "pi / 32767 \<le> 4 / 32767" using pi_less_4 by simp
  ultimately have "(pi / 32767)\<^sup>2 \<le> (4 / 32767)\<^sup>2"
    by (intro power_mono) auto
  then have "1 - (4 / 32767)\<^sup>2 / 2 \<le> 1 - (pi / 32767)\<^sup>2 / 2" by simp
  also have "\<dots> \<le> cos (pi / 32767)" by (rule cos_lower)
  finally show ?thesis by (simp add: power2_eq_square LNOR_SPACE_TRIGO_THRESHOLD_def)
qed

lemma small_of_square:
  fixes x :: real
  assumes "x\<^sup>2 \<le> 1 / 10 ^ 34"
  shows "\<bar>x\<bar> \<le> 1 / 10 ^ 17"
proof -
  have "x\<^sup>2 \<le> (1 / 10 ^ 17)\<^sup>2" using assms by (simp add: power2_eq_square)
  then have "\<bar>x\<bar> \<le> \<bar>1 / 10 ^ 17 :: real\<bar>" by (simp only: abs_le_square_iff)
  then show ?thesis by simp
qed

lemma small_product:
  fixes x y e :: real
  assumes "\<bar>x\<bar> \<le> 1" "\<bar>y\<bar> \<le> e"
  shows "\<bar>x * y\<bar> \<le> e"
proof -
  have "\<bar>x * y\<bar> = \<bar>x\<bar> * \<bar>y\<bar>" by (rule abs_mult)
  also have "\<dots> \<le> 1 * e" using assms by (intro mult_mono) auto
  finally show ?thesis by simp
qed

text \<open>An angle is at most the sum of two angles whose cosines bound its cosine.\<close>

lemma arccos_sum_bound:
  fixes x :: real
  assumes "0 \<le> s" "s \<le> pi / 2" "0 \<le> t" "t \<le> pi / 2"
    and "cos s + cos t - 1 \<le> x" "x \<le> 1"
  shows "arccos x \<le> s + t"
proof -
  have "cos (s + t) \<le> cos s + cos t - 1"
    using assms(1-4) by (intro cos_sum_bound) auto
  then have "cos (s + t) \<le> x" using assms(5) by simp
  then show ?thesis
    using assms(1-4,6) by (intro arccos_le_of_cos_le) auto
qed

text \<open>
  The round trip of a vector that is numerically parallel to the axis but not within the
  tolerance of it: \<^verbatim>\<open>normalize_v3\<close> gives the zero vector.
\<close>

lemma round_trip_degenerate:
  fixes sp :: MLoopNorSpace and v :: float3
  assumes frame: "lnor_space_frame sp"
    and near: "\<bar>dot_v3v3 v v - 1\<bar> \<le> \<delta>" "\<delta> \<le> 1 / 2"
    and deg: "dot_v3v3 v v - (dot_v3v3 (vec_lnor sp) v)\<^sup>2 \<le> normalize_eps"
    and na: "\<not> compare_v3v3 (vec_lnor sp) v float_1e_4"
  shows "cos (pi / 32767 + arccos (1 - \<delta>)) + LNOR_SPACE_TRIGO_THRESHOLD - 1
           \<le> dot_v3v3 v (lnor_round_trip sp v) / sqrt (dot_v3v3 v v)"
proof -
  define m where "m = dot_v3v3 v v"
  define c where "c = dot_v3v3 (vec_lnor sp) v"
  define alpha where "alpha = saacos c"
  define astar where "astar = arccos (c / sqrt m)"
  define p where "p = dot_v3v3 (vec_ref sp) v / sqrt m"
  define r where "r = dot_v3v3 (vec_ortho sp) v / sqrt m"
  define K where "K = arccos (1 - \<delta>)"
  have d0: "0 \<le> \<delta>" using near(1) by linarith
  have m: "1 / 2 \<le> m" "0 < m" using near by (simp_all add: m_def abs_le_iff)
  then have rm: "0 < sqrt m" by simp
  note fa = frame_angles [OF frame]
  note pp = plane_part [OF frame, of v, folded c_def m_def]
  have K: "0 \<le> K" "K \<le> pi / 2"
  proof -
    show "0 \<le> K" unfolding K_def using d0 near(2) by (intro arccos_lbound) auto
    show "K \<le> pi / 2" unfolding K_def using d0 near(2) by (intro arccos_le_pi2) auto
  qed
  have kappa: "\<bar>alpha - astar\<bar> \<le> K"
    unfolding alpha_def astar_def K_def c_def m_def
    by (rule encoder_alpha_error [OF frame near])
  have "(c / sqrt m)\<^sup>2 \<le> 1\<^sup>2" using pp(6) m by (simp add: power_divide)
  then have "\<bar>c / sqrt m\<bar> \<le> \<bar>1::real\<bar>" by (simp only: abs_le_square_iff)
  then have rng: "- 1 \<le> c / sqrt m" "c / sqrt m \<le> 1" by linarith+
  have cos_astar: "cos astar = c / sqrt m"
    unfolding astar_def using rng by (rule cos_arccos)
  have small: "(m - c\<^sup>2) / m \<le> 1 / 10 ^ 34"
  proof -
    have "m - c\<^sup>2 \<le> 1 / 10 ^ 35" using deg by (simp add: c_def m_def normalize_eps_def)
    moreover have "1 / 10 ^ 35 \<le> (1 / 10 ^ 34) * m" using m(1) by simp
    ultimately have "m - c\<^sup>2 \<le> (1 / 10 ^ 34) * m" by linarith
    then show ?thesis using m(2) by (simp add: divide_le_eq)
  qed
  have "(sin astar)\<^sup>2 = 1 - (c / sqrt m)\<^sup>2"
    using cos_astar by (simp add: sin_squared_eq)
  also have "\<dots> = (m - c\<^sup>2) / m" using m(2) by (simp add: power_divide field_simps)
  finally have sa: "\<bar>sin astar\<bar> \<le> 1 / 10 ^ 17"
    using small by (intro small_of_square) simp
  have "p\<^sup>2 + r\<^sup>2 = ((dot_v3v3 (vec_ref sp) v)\<^sup>2 + (dot_v3v3 (vec_ortho sp) v)\<^sup>2) / m"
    using m(2) by (simp add: p_def r_def power_divide add_divide_distrib)
  then have circle: "p\<^sup>2 + r\<^sup>2 = (m - c\<^sup>2) / m" by (simp only: pp(5))
  have "p\<^sup>2 \<le> 1 / 10 ^ 34"
    using circle small zero_le_power2 [of r] by linarith
  then have small_p: "\<bar>p\<bar> \<le> 1 / 10 ^ 17" by (rule small_of_square)
  have "r\<^sup>2 \<le> 1 / 10 ^ 34"
    using circle small zero_le_power2 [of p] by linarith
  then have small_r: "\<bar>r\<bar> \<le> 1 / 10 ^ 17" by (rule small_of_square)
  obtain d1 where enc: "BKE_lnor_space_custom_normal_to_data sp v
      = (unit_float_to_short (coded_factor (ref_alpha sp) alpha), d1)"
    using encoder_unfold [OF positive_not_zero na, of ] m(2)
    unfolding alpha_def c_def m_def by blast
  define a' where "a' = decoded_angle (ref_alpha sp)
      (unit_short_to_float (unit_float_to_short (coded_factor (ref_alpha sp) alpha)))"
  define b' where "b' = decoded_angle (ref_beta sp) (unit_short_to_float d1)"
  have rt: "lnor_round_trip sp v = frame_vector sp a' b'"
    unfolding lnor_round_trip_def enc a'_def b'_def
    using fa by (intro decoder_frame_vector) auto
  obtain da where da: "\<bar>da\<bar> \<le> pi / 32767" "cos a' = cos (alpha + da)"
      "sin a' = sin (alpha + da)"
    using coded_angle [of "ref_alpha sp" alpha] fa saacos_range [of c] pi_gt_zero
    unfolding a'_def alpha_def by auto
  define d where "d = alpha - astar + da"
  have ad: "alpha + da = astar + d" by (simp add: d_def)
  have d: "\<bar>d\<bar> \<le> pi / 32767 + K" using da(1) kappa by (simp add: d_def)
  have vl: "dot_v3v3 v (vec_lnor sp) / sqrt m = cos astar"
    unfolding cos_astar c_def by (simp only: dot_commute [of v "vec_lnor sp"])
  have vr: "dot_v3v3 v (vec_ref sp) / sqrt m = p"
    unfolding p_def by (simp only: dot_commute [of v "vec_ref sp"])
  have vo: "dot_v3v3 v (vec_ortho sp) / sqrt m = r"
    unfolding r_def by (simp only: dot_commute [of v "vec_ortho sp"])
  have "dot_v3v3 v (lnor_round_trip sp v) / sqrt m
      = cos a' * (dot_v3v3 v (vec_lnor sp) / sqrt m)
        + sin a' * (cos b' * (dot_v3v3 v (vec_ref sp) / sqrt m)
                    + sin b' * (dot_v3v3 v (vec_ortho sp) / sqrt m))"
    unfolding rt dot_frame_vector by (simp add: add_divide_distrib algebra_simps)
  then have dot0: "dot_v3v3 v (lnor_round_trip sp v) / sqrt m
      = cos (astar + d) * cos astar + sin (astar + d) * cos b' * p
        + sin (astar + d) * sin b' * r"
    unfolding vl vr vo da(2,3) ad by (simp add: algebra_simps)
  have "cos (astar + d) * cos astar + sin (astar + d) * sin astar = cos ((astar + d) - astar)"
    by (simp only: cos_diff)
  then have cc: "cos (astar + d) * cos astar = cos d - sin (astar + d) * sin astar"
    by simp
  have dot: "dot_v3v3 v (lnor_round_trip sp v) / sqrt m
      = cos d - sin (astar + d) * sin astar
        + sin (astar + d) * cos b' * p + sin (astar + d) * sin b' * r"
    unfolding dot0 cc by simp
  have t1: "\<bar>sin (astar + d) * sin astar\<bar> \<le> 1 / 10 ^ 17"
    using sa by (intro small_product) auto
  have "\<bar>sin (astar + d) * cos b'\<bar> \<le> 1 * 1"
    unfolding abs_mult by (intro mult_mono abs_sin_le_one abs_cos_le_one) auto
  then have t2: "\<bar>sin (astar + d) * cos b' * p\<bar> \<le> 1 / 10 ^ 17"
    using small_p by (intro small_product) auto
  have "\<bar>sin (astar + d) * sin b'\<bar> \<le> 1 * 1"
    unfolding abs_mult by (intro mult_mono abs_sin_le_one) auto
  then have t3: "\<bar>sin (astar + d) * sin b' * r\<bar> \<le> 1 / 10 ^ 17"
    using small_r by (intro small_product) auto
  have "pi / 32767 + K \<le> pi" using K(2) pi_gt_zero by linarith
  then have "cos (pi / 32767 + K) \<le> cos d"
    using d by (intro cos_ge_of_abs_le) auto
  then have "cos (pi / 32767 + K) + LNOR_SPACE_TRIGO_THRESHOLD - 1
      \<le> dot_v3v3 v (lnor_round_trip sp v) / sqrt m"
    unfolding dot using threshold_range(2) t1 t2 t3 by (simp add: abs_le_iff)
  then show ?thesis by (simp add: K_def m_def)
qed

lemma round_trip_unit:
  assumes frame: "lnor_space_frame sp"
  shows "dot_v3v3 (lnor_round_trip sp v) (lnor_round_trip sp v) = 1"
proof -
  obtain d0 d1 where enc: "BKE_lnor_space_custom_normal_to_data sp v = (d0, d1)"
    by (cases "BKE_lnor_space_custom_normal_to_data sp v")
  have "lnor_round_trip sp v
      = frame_vector sp (decoded_angle (ref_alpha sp) (unit_short_to_float d0))
          (decoded_angle (ref_beta sp) (unit_short_to_float d1))"
    unfolding lnor_round_trip_def enc
    using frame_angles [OF frame] by (intro decoder_frame_vector) auto
  then show ?thesis by (simp only: frame_vector_unit [OF frame])
qed

lemma encoder_vec_length:
  fixes sp :: MLoopNorSpace and v :: float3
  assumes frame: "lnor_space_frame sp" and "snd (encoder_vec sp v) \<noteq> 0"
  shows "normalize_eps < dot_v3v3 v v - (dot_v3v3 (vec_lnor sp) v)\<^sup>2"
proof (rule ccontr)
  assume "\<not> normalize_eps < dot_v3v3 v v - (dot_v3v3 (vec_lnor sp) v)\<^sup>2"
  then have "snd (encoder_vec sp v) = 0"
    using plane_part(4) [OF frame, of v]
    by (simp add: encoder_vec_def normalize_v3_v3_def Let_def)
  with assms(2) show False by simp
qed

lemma threshold_angle:
  "cos (arccos LNOR_SPACE_TRIGO_THRESHOLD) = LNOR_SPACE_TRIGO_THRESHOLD"
  "0 \<le> arccos LNOR_SPACE_TRIGO_THRESHOLD"
  "arccos LNOR_SPACE_TRIGO_THRESHOLD \<le> pi / 2"
proof -
  note r = threshold_range
  show "cos (arccos LNOR_SPACE_TRIGO_THRESHOLD) = LNOR_SPACE_TRIGO_THRESHOLD"
    using r by (intro cos_arccos) auto
  show "0 \<le> arccos LNOR_SPACE_TRIGO_THRESHOLD" using r by (intro arccos_lbound) auto
  show "arccos LNOR_SPACE_TRIGO_THRESHOLD \<le> pi / 2" using r by (intro arccos_le_pi2) auto
qed

lemma length_error_angle:
  fixes \<delta> :: real
  assumes "0 \<le> \<delta>" "\<delta> \<le> 1 / 2"
  shows "0 \<le> arccos (1 - \<delta>)" and "arccos (1 - \<delta>) \<le> pi / 3"
proof -
  show "0 \<le> arccos (1 - \<delta>)" using assms by (intro arccos_lbound) auto
  show "arccos (1 - \<delta>) \<le> pi / 3"
    using assms pi_gt_zero by (intro arccos_le_of_cos_le) (auto simp: cos_60)
qed

text \<open>
  C1, amended. For every space with the frame that \<^verbatim>\<open>BKE_lnor_space_define\<close> builds and every
  vector \<open>custom_lnor\<close> whose squared length is within \<open>\<delta>\<close> of 1 (\<open>\<delta> = 0\<close> for a unit vector,
  a few \<open>2\<^sup>-\<^sup>2\<^sup>4\<close> for a normalized float vector), decoding the code of the vector gives a unit
  vector; its angle to the vector is at most
  \<open>arccos LNOR_SPACE_TRIGO_THRESHOLD + pi / 32767 + arccos (1 - \<delta>)\<close> (about 0.0142 radians
  for small \<open>\<delta>\<close>), and at most \<open>2 * pi / 32767 + arccos (1 - \<delta>)\<close> when the encoder takes none of
  its shortcuts: the vector is not within \<^verbatim>\<open>1e-4f\<close> of the axis on every component,
  \<^verbatim>\<open>normalize_v3\<close> succeeds, and \<^verbatim>\<open>cos_beta\<close> is below the threshold. The term
  \<open>arccos (1 - \<delta>)\<close> is there because the encoder takes \<^verbatim>\<open>cos_alpha\<close> from the vector as it is.
\<close>

theorem C1_round_trip_bound:
  fixes lnor_space :: MLoopNorSpace and custom_lnor :: float3 and \<delta> :: real
  assumes frame: "lnor_space_frame lnor_space"
    and near: "\<bar>dot_v3v3 custom_lnor custom_lnor - 1\<bar> \<le> \<delta>" and small: "\<delta> \<le> 1 / 2"
  shows "dot_v3v3 (lnor_round_trip lnor_space custom_lnor)
           (lnor_round_trip lnor_space custom_lnor) = 1
       \<and> angular_deviation custom_lnor (lnor_round_trip lnor_space custom_lnor)
           \<le> arccos LNOR_SPACE_TRIGO_THRESHOLD + pi / 32767 + arccos (1 - \<delta>)
       \<and> (\<not> compare_v3v3 (vec_lnor lnor_space) custom_lnor float_1e_4
            \<and> snd (encoder_vec lnor_space custom_lnor) \<noteq> 0
            \<and> dot_v3v3 (vec_ref lnor_space) (fst (encoder_vec lnor_space custom_lnor))
                < LNOR_SPACE_TRIGO_THRESHOLD
          \<longrightarrow> angular_deviation custom_lnor (lnor_round_trip lnor_space custom_lnor)
                \<le> 2 * pi / 32767 + arccos (1 - \<delta>))"
proof -
  let ?rt = "lnor_round_trip lnor_space custom_lnor"
  let ?cb = "dot_v3v3 (vec_ref lnor_space) (fst (encoder_vec lnor_space custom_lnor))"
  let ?s = "pi / 32767"
  let ?t = "arccos LNOR_SPACE_TRIGO_THRESHOLD"
  let ?K = "arccos (1 - \<delta>)"
  define m where "m = dot_v3v3 custom_lnor custom_lnor"
  define x where "x = dot_v3v3 custom_lnor ?rt / sqrt m"
  note ta = threshold_angle
  have d0: "0 \<le> \<delta>" using near by linarith
  note K = length_error_angle [OF d0 small]
  have m: "1 / 4 \<le> m" "0 < m" using near small by (simp_all add: m_def abs_le_iff)
  then have rm: "0 < sqrt m" by simp
  have s: "0 \<le> ?s" "?s \<le> pi / 2" using pi_gt_zero by simp_all
  have sK: "0 \<le> ?s + ?K" "?s + ?K \<le> pi / 2" using K pi_gt_zero by linarith+
  have rt_unit: "dot_v3v3 ?rt ?rt = 1" by (rule round_trip_unit [OF frame])
  have "(dot_v3v3 ?rt custom_lnor)\<^sup>2 \<le> m"
    unfolding m_def using rt_unit by (rule dot_unit_square)
  then have "x\<^sup>2 \<le> 1\<^sup>2"
    using m(2) by (simp add: x_def power_divide dot_commute [of custom_lnor ?rt])
  then have "\<bar>x\<bar> \<le> \<bar>1::real\<bar>" by (simp only: abs_le_square_iff)
  then have le1: "x \<le> 1" by linarith
  have dev: "angular_deviation custom_lnor ?rt = arccos x"
    by (simp add: angular_deviation_def rt_unit x_def m_def)
  have general: "cos (?s + ?K) + cos ?t - 1 \<le> x"
  proof (cases "compare_v3v3 (vec_lnor lnor_space) custom_lnor float_1e_4")
    case True
    have "LNOR_SPACE_TRIGO_THRESHOLD
        \<le> dot_v3v3 custom_lnor (vec_lnor lnor_space) / sqrt (dot_v3v3 custom_lnor custom_lnor)"
      using frame_facts(1) [OF frame] m(1) [unfolded m_def] True by (rule axis_shortcut_dot)
    then have "LNOR_SPACE_TRIGO_THRESHOLD \<le> x"
      by (simp add: x_def m_def axis_shortcut_round_trip [OF True])
    moreover have "cos (?s + ?K) \<le> 1" by simp
    ultimately show ?thesis unfolding ta(1) by linarith
  next
    case na: False
    show ?thesis
    proof (cases "normalize_eps
        < dot_v3v3 custom_lnor custom_lnor - (dot_v3v3 (vec_lnor lnor_space) custom_lnor)\<^sup>2")
      case False
      then have "dot_v3v3 custom_lnor custom_lnor
          - (dot_v3v3 (vec_lnor lnor_space) custom_lnor)\<^sup>2 \<le> normalize_eps"
        by simp
      then show ?thesis
        unfolding ta(1) x_def m_def by (rule round_trip_degenerate [OF frame near small _ na])
    next
      case True
      obtain g where g: "g \<le> 1"
          "if ?cb < LNOR_SPACE_TRIGO_THRESHOLD then cos ?s \<le> g else g = ?cb"
          "cos (?s + ?K) + g - 1 \<le> x"
        using round_trip_regular [OF frame near small True na] unfolding x_def m_def by blast
      have "LNOR_SPACE_TRIGO_THRESHOLD \<le> g"
        using g(2) cos_step_lower by (auto split: if_splits)
      then show ?thesis using g(3) unfolding ta(1) by linarith
    qed
  qed
  have "arccos x \<le> (?s + ?K) + ?t"
    using sK ta(2,3) general le1 by (rule arccos_sum_bound)
  then have coarse: "arccos x \<le> ?t + ?s + ?K" by simp
  have fine: "arccos x \<le> 2 * pi / 32767 + ?K"
    if na: "\<not> compare_v3v3 (vec_lnor lnor_space) custom_lnor float_1e_4"
      and len: "snd (encoder_vec lnor_space custom_lnor) \<noteq> 0"
      and cb: "?cb < LNOR_SPACE_TRIGO_THRESHOLD"
  proof -
    have nd: "normalize_eps
        < dot_v3v3 custom_lnor custom_lnor - (dot_v3v3 (vec_lnor lnor_space) custom_lnor)\<^sup>2"
      by (rule encoder_vec_length [OF frame len])
    obtain g where g: "g \<le> 1"
        "if ?cb < LNOR_SPACE_TRIGO_THRESHOLD then cos ?s \<le> g else g = ?cb"
        "cos (?s + ?K) + g - 1 \<le> x"
      using round_trip_regular [OF frame near small nd na] unfolding x_def m_def by blast
    have "cos ?s \<le> g" using g(2) cb by simp
    then have "cos (?s + ?K) + cos ?s - 1 \<le> x" using g(3) by linarith
    with sK s have "arccos x \<le> (?s + ?K) + ?s"
      using le1 by (rule arccos_sum_bound)
    then show ?thesis by simp
  qed
  show ?thesis
    unfolding dev using rt_unit coarse fine by blast
qed

text \<open>The frame is the one that \<^verbatim>\<open>BKE_lnor_space_define\<close> builds.\<close>

lemma dot_sub: "dot_v3v3 a (sub_v3_v3v3 b c) = dot_v3v3 a b - dot_v3v3 a c"
  by (cases a; cases b; cases c) (simp add: algebra_simps)

lemma mul_v3_one: "mul_v3_v3fl a 1 = a"
  by (cases a) simp

lemma dot_mul_mul: "dot_v3v3 (mul_v3_v3fl a f) (mul_v3_v3fl a f) = f\<^sup>2 * dot_v3v3 a a"
  by (cases a) (simp add: power2_eq_square algebra_simps)

lemma fold_saacos_range:
  "a \<le> fold (\<lambda>vec alpha. alpha + saacos (dot_v3v3 vec lnor)) vecs a
   \<and> fold (\<lambda>vec alpha. alpha + saacos (dot_v3v3 vec lnor)) vecs a
       \<le> a + pi * real (length vecs)"
proof (induction vecs arbitrary: a)
  case Nil
  then show ?case by simp
next
  case (Cons vec vecs)
  note ih = Cons.IH [of "a + saacos (dot_v3v3 vec lnor)"]
  note r = saacos_range [of "dot_v3v3 vec lnor"]
  show ?case using ih r by (simp add: algebra_simps)
qed

lemma BKE_lnor_space_define_frame:
  assumes lnor: "dot_v3v3 lnor lnor = 1" and ref0: "dot_v3v3 vec_ref0 vec_ref0 = 1"
    and alpha: "ref_alpha (BKE_lnor_space_define lnor_space lnor vec_ref0 vec_other0 edge_vectors) \<noteq> 0"
    and beta: "ref_beta (BKE_lnor_space_define lnor_space lnor vec_ref0 vec_other0 edge_vectors) \<noteq> 0"
  shows "lnor_space_frame
           (BKE_lnor_space_define lnor_space lnor vec_ref0 vec_other0 edge_vectors)"
proof -
  let ?sp = "BKE_lnor_space_define lnor_space lnor vec_ref0 vec_other0 edge_vectors"
  define dtp where "dtp = dot_v3v3 vec_ref0 lnor"
  define u where "u = sub_v3_v3v3 vec_ref0 (mul_v3_v3fl lnor dtp)"
  define n where "n = sqrt (1 - dtp\<^sup>2)"
  define ref where "ref = fst (normalize_v3_v3 u)"
  have branch: "\<not> (\<bar>dtp\<bar> \<ge> LNOR_SPACE_TRIGO_THRESHOLD
                  \<or> \<bar>dot_v3v3 vec_other0 lnor\<bar> \<ge> LNOR_SPACE_TRIGO_THRESHOLD)"
    using alpha by (auto simp: BKE_lnor_space_define_def Let_def dtp_def)
  then have "\<bar>dtp\<bar> \<le> \<bar>16775538 / 16777216 :: real\<bar>"
    by (simp add: LNOR_SPACE_TRIGO_THRESHOLD_def)
  then have "dtp\<^sup>2 \<le> (16775538 / 16777216)\<^sup>2" by (simp only: abs_le_square_iff)
  then have d2: "dtp\<^sup>2 < 1 - 1 / 10000" by (simp add: power2_eq_square)
  have lu: "dot_v3v3 lnor u = 0"
    by (simp add: u_def dot_sub dot_mul lnor dtp_def dot_commute [of lnor vec_ref0])
  have vu: "dot_v3v3 vec_ref0 u = 1 - dtp\<^sup>2"
    by (simp add: u_def dot_sub dot_mul ref0 dtp_def power2_eq_square)
  have "dot_v3v3 u (sub_v3_v3v3 vec_ref0 (mul_v3_v3fl lnor dtp))
        = dot_v3v3 u vec_ref0 - dtp * dot_v3v3 u lnor"
    by (simp only: dot_sub dot_mul)
  then have uu: "dot_v3v3 u u = 1 - dtp\<^sup>2"
    using lu vu
    by (simp add: u_def [symmetric] dot_commute [of u vec_ref0] dot_commute [of u lnor])
  have npos: "0 < n" "n\<^sup>2 = 1 - dtp\<^sup>2" using d2 by (simp_all add: n_def)
  have "normalize_eps < dot_v3v3 u u"
    using d2 by (simp add: uu normalize_eps_def)
  then have ref: "ref = mul_v3_v3fl u (1 / n)"
    by (simp add: ref_def normalize_v3_v3_def Let_def uu n_def)
  have "dot_v3v3 ref ref = (1 / n)\<^sup>2 * n\<^sup>2"
    by (simp only: ref dot_mul_mul uu npos(2))
  then have ref_unit: "dot_v3v3 ref ref = 1"
    using npos(1) by (simp add: power_divide)
  have lref: "dot_v3v3 lnor ref = 0"
    by (simp add: ref dot_mul lu)
  have "dot_v3v3 (cross_v3_v3v3 lnor ref) (cross_v3_v3v3 lnor ref) = 1"
    by (simp add: cross_norm lnor ref_unit lref)
  then have ortho: "fst (normalize_v3_v3 (cross_v3_v3v3 lnor ref)) = cross_v3_v3v3 lnor ref"
    by (simp add: normalize_v3_v3_def Let_def normalize_eps_def mul_v3_one)
  have fields: "vec_lnor ?sp = lnor" "vec_ref ?sp = ref"
      "vec_ortho ?sp = cross_v3_v3v3 lnor ref"
    using branch ortho
    by (simp_all add: BKE_lnor_space_define_def Let_def dtp_def [symmetric] u_def [symmetric]
        ref_def [symmetric])
  have "0 \<le> ref_alpha ?sp \<and> ref_alpha ?sp \<le> pi"
  proof (cases edge_vectors)
    case None
    then have "ref_alpha ?sp
        = (saacos (dot_v3v3 vec_ref0 lnor) + saacos (dot_v3v3 vec_other0 lnor)) / 2"
      using branch by (simp add: BKE_lnor_space_define_def Let_def dtp_def)
    then show ?thesis
      using saacos_range [of "dot_v3v3 vec_ref0 lnor"]
        saacos_range [of "dot_v3v3 vec_other0 lnor"] by simp
  next
    case (Some vecs)
    then have ra: "ref_alpha ?sp
        = fold (\<lambda>vec alpha. alpha + saacos (dot_v3v3 vec lnor)) vecs 0 / real (length vecs)"
      using branch by (simp add: BKE_lnor_space_define_def Let_def dtp_def)
    note fr = fold_saacos_range [of 0 lnor vecs]
    show ?thesis
    proof (cases "vecs = []")
      case True
      then show ?thesis using ra by simp
    next
      case False
      then have "0 < real (length vecs)" by simp
      then show ?thesis
        unfolding ra using fr by (simp add: field_simps)
    qed
  qed
  moreover have "0 \<le> ref_beta ?sp \<and> ref_beta ?sp \<le> 2 * pi"
    using branch saacos_range [of "dot_v3v3 ref (fst (normalize_v3_v3
        (sub_v3_v3v3 vec_other0 (mul_v3_v3fl lnor (dot_v3v3 vec_other0 lnor)))))"] pi_gt_zero
    by (auto simp: BKE_lnor_space_define_def Let_def dtp_def [symmetric] u_def [symmetric]
        ref_def [symmetric])
  ultimately show ?thesis
    using alpha beta lnor ref_unit lref
    by (simp add: lnor_space_frame_def fields)
qed

lemma quarter_space_eq:
  "quarter_space = \<lparr>vec_lnor = (0, 0, 1), vec_ref = (1, 0, 0), vec_ortho = (0, 1, 0),
     ref_alpha = pi / 2, ref_beta = pi / 2, loops = [], flags = 0\<rparr>"
  by (simp add: quarter_space_def BKE_lnor_space_define_def Let_def zero_space_def zero_v3_def
      saacos_def normalize_v3_v3_def normalize_eps_def LNOR_SPACE_TRIGO_THRESHOLD_def)

lemma quarter_space_frame: "lnor_space_frame quarter_space"
proof -
  have "ref_alpha quarter_space \<noteq> 0" "ref_beta quarter_space \<noteq> 0"
    by (simp_all add: quarter_space_eq)
  then show ?thesis
    unfolding quarter_space_def
    by (intro BKE_lnor_space_define_frame) simp_all
qed

lemma arccos_greater:
  assumes "0 \<le> u" "u \<le> pi" "- 1 \<le> x" "x < cos u"
  shows "u < arccos x"
proof -
  have "arccos (cos u) < arccos x"
    using assms(3,4) by (intro arccos_less_arccos) auto
  then show ?thesis using assms(1,2) by (simp add: arccos_cos)
qed

lemma cos_steps_lower:
  assumes "0 \<le> k" "k \<le> 100"
  shows "1 - (k / 8192)\<^sup>2 / 2 \<le> cos (k * (2 * pi / 65536))"
proof -
  have "0 \<le> k * (2 * pi / 65536)" using assms(1) pi_gt_zero by simp
  moreover have "k * (2 * pi / 65536) \<le> k / 8192"
  proof -
    have "k * (2 * pi / 65536) = k * (pi / 32768)" by simp
    also have "\<dots> \<le> k * (4 / 32768)"
      using pi_less_4 assms(1) by (intro mult_left_mono) auto
    finally show ?thesis by simp
  qed
  ultimately have "(k * (2 * pi / 65536))\<^sup>2 \<le> (k / 8192)\<^sup>2"
    by (intro power_mono) auto
  then have "1 - (k / 8192)\<^sup>2 / 2 \<le> 1 - (k * (2 * pi / 65536))\<^sup>2 / 2" by simp
  also have "\<dots> \<le> cos (k * (2 * pi / 65536))" by (rule cos_lower)
  finally show ?thesis .
qed

lemma near_lnor_round_trip: "lnor_round_trip quarter_space near_lnor = (0, 0, 1)"
proof -
  have "compare_v3v3 (vec_lnor quarter_space) near_lnor float_1e_4"
    by (simp add: quarter_space_eq near_lnor_def compare_ff_def float_1e_4_def)
  then have "lnor_round_trip quarter_space near_lnor = vec_lnor quarter_space"
    by (rule axis_shortcut_round_trip)
  then show ?thesis by (simp add: quarter_space_eq)
qed

lemma near_ref_code:
  "BKE_lnor_space_custom_normal_to_data quarter_space near_ref = (32767, 0)"
  by (simp add: BKE_lnor_space_custom_normal_to_data_def quarter_space_eq near_ref_def Let_def
      compare_ff_def float_1e_4_def saacos_def normalize_v3_v3_def normalize_eps_def
      LNOR_SPACE_TRIGO_THRESHOLD_def unit_float_to_short_def SHRT_MAX_def)

lemma near_ref_round_trip: "lnor_round_trip quarter_space near_ref = (1, 0, 0)"
proof -
  have "sint (32767 :: 16 word) = 32767"
    using sint_short [of 32767] by simp
  then have a: "unit_short_to_float (32767 :: 16 word) = 1"
    by (simp add: unit_short_to_float_def SHRT_MAX_def)
  show ?thesis
    unfolding lnor_round_trip_def near_ref_code
    by (simp add: BKE_lnor_space_custom_data_to_normal_def quarter_space_eq a unit_short_zero
        Let_def)
qed

text \<open>
  C1, as stated, fails. In the space built for a right-angled corner, the unit vector
  \<open>near_lnor\<close> is snapped to the axis, 1.4 quantization steps away, and the unit vector
  \<open>near_ref\<close> is snapped to the reference direction, more than 100 steps away.
\<close>

theorem C1_round_trip_counterexample:
  "ref_alpha quarter_space \<noteq> 0 \<and> ref_beta quarter_space \<noteq> 0
   \<and> dot_v3v3 near_lnor near_lnor = 1
   \<and> lnor_round_trip quarter_space near_lnor = (0, 0, 1)
   \<and> 2 * pi / 65536 < angular_deviation near_lnor (lnor_round_trip quarter_space near_lnor)
   \<and> dot_v3v3 near_ref near_ref = 1
   \<and> lnor_round_trip quarter_space near_ref = (1, 0, 0)
   \<and> 100 * (2 * pi / 65536)
       < angular_deviation near_ref (lnor_round_trip quarter_space near_ref)"
proof -
  have space: "ref_alpha quarter_space \<noteq> 0" "ref_beta quarter_space \<noteq> 0"
    by (simp_all add: quarter_space_eq)
  have unit: "dot_v3v3 near_lnor near_lnor = 1" "dot_v3v3 near_ref near_ref = 1"
    by (simp_all add: near_lnor_def near_ref_def)
  have dl: "dot_v3v3 near_lnor (0, 0, 1) = 400039999 / 400040003"
    by (simp add: near_lnor_def)
  have dr: "dot_v3v3 near_ref (1, 0, 0) = 20163 / 20165"
    by (simp add: near_ref_def)
  have "1 * (2 * pi / 65536) < arccos (400039999 / 400040003)"
  proof (rule arccos_greater)
    show "400039999 / 400040003 < cos (1 * (2 * pi / 65536))"
      using cos_steps_lower [of 1] by (simp add: power2_eq_square)
  qed (use pi_gt_zero in simp_all)
  then have axis: "2 * pi / 65536
      < angular_deviation near_lnor (lnor_round_trip quarter_space near_lnor)"
    unfolding angular_deviation_def near_lnor_round_trip dl by (simp add: unit)
  have "100 * (2 * pi / 65536) < arccos (20163 / 20165)"
  proof (rule arccos_greater)
    show "20163 / 20165 < cos (100 * (2 * pi / 65536))"
      using cos_steps_lower [of 100] by (simp add: power2_eq_square)
  qed (use pi_gt_zero in simp_all)
  then have ref: "100 * (2 * pi / 65536)
      < angular_deviation near_ref (lnor_round_trip quarter_space near_ref)"
    unfolding angular_deviation_def near_ref_round_trip dr by (simp add: unit)
  show ?thesis
    using space unit axis ref near_lnor_round_trip near_ref_round_trip by simp
qed

lemma sqrt_float_unit: "sqrt (1 / 16777216) = 1 / 4096"
  by (rule real_sqrt_unique) (simp_all add: power2_eq_square)

lemma float_unit_encoder_vec:
  "encoder_vec quarter_space float_unit_lnor = ((0, 1, 0), 1 / 4096)"
  by (simp add: encoder_vec_def quarter_space_eq float_unit_lnor_def normalize_v3_v3_def Let_def
      normalize_eps_def sqrt_float_unit)

theorem C1_round_trip_bound_witness:
  "lnor_space_frame quarter_space
   \<and> \<bar>dot_v3v3 float_unit_lnor float_unit_lnor - 1\<bar> \<le> 1 / 2 ^ 24
   \<and> \<not> compare_v3v3 (vec_lnor quarter_space) float_unit_lnor float_1e_4
   \<and> snd (encoder_vec quarter_space float_unit_lnor) \<noteq> 0
   \<and> dot_v3v3 (vec_ref quarter_space) (fst (encoder_vec quarter_space float_unit_lnor))
       < LNOR_SPACE_TRIGO_THRESHOLD
   \<and> dot_v3v3 (lnor_round_trip quarter_space float_unit_lnor)
         (lnor_round_trip quarter_space float_unit_lnor) = 1
   \<and> angular_deviation float_unit_lnor (lnor_round_trip quarter_space float_unit_lnor)
       \<le> arccos LNOR_SPACE_TRIGO_THRESHOLD + pi / 32767 + arccos (1 - 1 / 2 ^ 24)
   \<and> angular_deviation float_unit_lnor (lnor_round_trip quarter_space float_unit_lnor)
       \<le> 2 * pi / 32767 + arccos (1 - 1 / 2 ^ 24)"
proof -
  have near: "\<bar>dot_v3v3 float_unit_lnor float_unit_lnor - 1\<bar> \<le> 1 / 2 ^ 24"
    by (simp add: float_unit_lnor_def)
  have small: "(1 / 2 ^ 24 :: real) \<le> 1 / 2" by simp
  have far: "\<not> compare_v3v3 (vec_lnor quarter_space) float_unit_lnor float_1e_4"
    by (simp add: quarter_space_eq float_unit_lnor_def compare_ff_def float_1e_4_def)
  have len: "snd (encoder_vec quarter_space float_unit_lnor) \<noteq> 0"
    by (simp add: float_unit_encoder_vec)
  have cb: "dot_v3v3 (vec_ref quarter_space) (fst (encoder_vec quarter_space float_unit_lnor))
      < LNOR_SPACE_TRIGO_THRESHOLD"
    unfolding float_unit_encoder_vec
    by (simp add: quarter_space_eq LNOR_SPACE_TRIGO_THRESHOLD_def)
  from C1_round_trip_bound [OF quarter_space_frame near small] far len cb
  have "dot_v3v3 (lnor_round_trip quarter_space float_unit_lnor)
         (lnor_round_trip quarter_space float_unit_lnor) = 1
     \<and> angular_deviation float_unit_lnor (lnor_round_trip quarter_space float_unit_lnor)
         \<le> arccos LNOR_SPACE_TRIGO_THRESHOLD + pi / 32767 + arccos (1 - 1 / 2 ^ 24)
     \<and> angular_deviation float_unit_lnor (lnor_round_trip quarter_space float_unit_lnor)
         \<le> 2 * pi / 32767 + arccos (1 - 1 / 2 ^ 24)"
    by blast
  with quarter_space_frame near far len cb show ?thesis by blast
qed

section \<open>Codec: the reserved code\<close>

text \<open>A factor that is not within half a step of zero has a code other than zero.\<close>

lemma unit_float_to_short_nonzero:
  assumes "- 1 \<le> x" "x \<le> 1" "1 / 65534 \<le> x \<or> x < - 1 / 65534"
  shows "unit_float_to_short x \<noteq> 0"
proof
  let ?k = "\<lfloor>x * 32767 + 1 / 2\<rfloor>"
  assume zero: "unit_float_to_short x = 0"
  have lo: "- 32767 \<le> ?k" using assms(1) by (simp add: le_floor_iff)
  have hi: "?k \<le> 32767" using assms(2) by (simp add: floor_le_iff)
  have "sint (word_of_int ?k :: 16 word) = ?k"
    using lo hi by (intro sint_short) auto
  moreover have "(word_of_int ?k :: 16 word) = 0"
    using zero by (simp add: unit_float_to_short_def SHRT_MAX_def)
  ultimately have k: "?k = 0" by simp
  from assms(3) show False
  proof
    assume "1 / 65534 \<le> x"
    then have "1 \<le> ?k" by (simp add: le_floor_iff)
    with k show False by simp
  next
    assume "x < - 1 / 65534"
    then have "?k < 0" by (simp add: floor_less_iff)
    with k show False by simp
  qed
qed

lemma coded_factor_nonzero:
  assumes ref: "0 \<le> ref" "ref \<le> pi" and a: "4 / 65534 \<le> a" "a \<le> pi"
  shows "unit_float_to_short (coded_factor ref a) \<noteq> 0"
proof (cases "a > ref")
  case True
  have pos: "0 < 2 * pi - ref" using ref(2) pi_gt_zero by linarith
  have "- (2 * pi - a) / (2 * pi - ref) = - ((2 * pi - a) / (2 * pi - ref))"
    by (simp only: minus_divide_left)
  then have x: "coded_factor ref a = - ((2 * pi - a) / (2 * pi - ref))"
    unfolding coded_factor_def using True by (simp only: if_True)
  define y where "y = (2 * pi - a) / (2 * pi - ref)"
  have "y \<le> 1"
    unfolding y_def using True pos by (simp add: divide_le_eq)
  moreover have "1 / 2 \<le> y"
    unfolding y_def using a(2) ref(1) pos by (simp add: le_divide_eq)
  ultimately have "- 1 \<le> - y" "- y \<le> 1" "1 / 65534 \<le> - y \<or> - y < - 1 / 65534"
    by simp_all
  then show ?thesis
    unfolding x y_def [symmetric] by (rule unit_float_to_short_nonzero)
next
  case False
  then have pos: "0 < ref" using a(1) by linarith
  have x: "coded_factor ref a = a / ref"
    using False by (simp add: coded_factor_def)
  have "a / ref \<le> 1" using False pos by (simp add: divide_le_eq)
  moreover have "1 / 65534 \<le> a / ref"
  proof -
    have "ref * (1 / 65534) \<le> 4 * (1 / 65534)"
      using ref(2) pi_less_4 by (intro mult_right_mono) auto
    then have "ref * (1 / 65534) \<le> a" using a(1) by simp
    then show ?thesis using pos by (simp add: le_divide_eq mult.commute)
  qed
  ultimately have "- 1 \<le> a / ref" "a / ref \<le> 1"
      "1 / 65534 \<le> a / ref \<or> a / ref < - 1 / 65534"
    by linarith+
  then show ?thesis
    unfolding x by (rule unit_float_to_short_nonzero)
qed

text \<open>
  A vector of about unit length that is not within the tolerance of the axis is more than
  half a step of the code away from it.
\<close>

lemma compare_far:
  assumes "\<not> compare_v3v3 a v float_1e_4"
  shows "float_1e_4\<^sup>2 < dot_v3v3 a a + dot_v3v3 v v - 2 * dot_v3v3 a v"
proof -
  obtain a0 a1 a2 where a: "a = (a0, a1, a2)" by (cases a)
  obtain v0 v1 v2 where v: "v = (v0, v1, v2)" by (cases v)
  have tol: "\<bar>float_1e_4\<bar> = float_1e_4" by (simp add: float_1e_4_def)
  have "\<not> \<bar>a0 - v0\<bar> \<le> \<bar>float_1e_4\<bar> \<or> \<not> \<bar>a1 - v1\<bar> \<le> \<bar>float_1e_4\<bar>
      \<or> \<not> \<bar>a2 - v2\<bar> \<le> \<bar>float_1e_4\<bar>"
    using assms unfolding tol by (auto simp: a v compare_ff_def)
  then have "\<not> (a0 - v0)\<^sup>2 \<le> float_1e_4\<^sup>2 \<or> \<not> (a1 - v1)\<^sup>2 \<le> float_1e_4\<^sup>2
      \<or> \<not> (a2 - v2)\<^sup>2 \<le> float_1e_4\<^sup>2"
    by (simp only: abs_le_square_iff)
  then have "float_1e_4\<^sup>2 < (a0 - v0)\<^sup>2 + (a1 - v1)\<^sup>2 + (a2 - v2)\<^sup>2"
    using zero_le_power2 [of "a0 - v0"] zero_le_power2 [of "a1 - v1"]
      zero_le_power2 [of "a2 - v2"] by linarith
  also have "\<dots> = dot_v3v3 a a + dot_v3v3 v v - 2 * dot_v3v3 a v"
    by (simp add: a v power2_eq_square algebra_simps)
  finally show ?thesis .
qed

lemma far_alpha:
  assumes axis: "dot_v3v3 a a \<le> 1" and near: "\<bar>dot_v3v3 v v - 1\<bar> \<le> 1 / 10 ^ 9"
    and far: "\<not> compare_v3v3 a v float_1e_4"
  shows "4 / 65534 \<le> saacos (dot_v3v3 a v)"
proof -
  define c where "c = dot_v3v3 a v"
  have "float_1e_4\<^sup>2 < 2 + 1 / 10 ^ 9 - 2 * c"
    using compare_far [OF far] axis near unfolding c_def by linarith
  then have c: "c < 1 - (4 / 65534)\<^sup>2 / 2"
    by (simp add: float_1e_4_def power2_eq_square)
  show ?thesis
  proof (cases "c \<le> - 1")
    case True
    then have "saacos c = pi" by (simp add: saacos_def)
    then show ?thesis using pi_ge_two by (simp add: c_def)
  next
    case False
    have c1: "c < 1" using c by (simp add: power2_eq_square)
    then have sa: "saacos c = arccos c" using False by (simp add: saacos_def)
    have ac: "0 \<le> arccos c" "cos (arccos c) = c"
      using False c1 by (simp_all add: arccos_lbound)
    have "4 / 65534 \<le> arccos c"
    proof (rule ccontr)
      assume "\<not> 4 / 65534 \<le> arccos c"
      then have "(arccos c)\<^sup>2 \<le> (4 / 65534)\<^sup>2"
        using ac(1) by (intro power_mono) auto
      then have "1 - (4 / 65534)\<^sup>2 / 2 \<le> 1 - (arccos c)\<^sup>2 / 2" by simp
      also have "\<dots> \<le> cos (arccos c)" by (rule cos_lower)
      finally show False using c ac(2) by simp
    qed
    then have "4 / 65534 \<le> saacos c" by (simp only: sa)
    then show ?thesis by (simp only: c_def)
  qed
qed

text \<open>
  C2 as stated fails. The unit vector \<open>near_lnor\<close> is not the axis of \<open>unit_space\<close> and is
  coded \<open>(0, 0)\<close>; the space \<open>collapsed_space\<close> is degenerate (both reference angles are zero)
  and the unit vector \<open>(1, 0, 0)\<close> is not coded \<open>(0, 0)\<close> in it.
\<close>

theorem C2_reserved_code_counterexample:
  "near_lnor \<noteq> vec_lnor unit_space
   \<and> ref_alpha unit_space \<noteq> 0 \<and> ref_beta unit_space \<noteq> 0
   \<and> dot_v3v3 near_lnor near_lnor = 1
   \<and> BKE_lnor_space_custom_normal_to_data unit_space near_lnor = (0, 0)
   \<and> ref_alpha collapsed_space = 0 \<and> ref_beta collapsed_space = 0
   \<and> BKE_lnor_space_custom_normal_to_data collapsed_space (1, 0, 0) \<noteq> (0, 0)"
proof -
  have collapsed: "collapsed_space = zero_space"
    by (simp add: collapsed_space_def BKE_lnor_space_define_def Let_def zero_space_def
        LNOR_SPACE_TRIGO_THRESHOLD_def)
  have "BKE_lnor_space_custom_normal_to_data unit_space near_lnor = (0, 0)"
    by (simp add: BKE_lnor_space_custom_normal_to_data_def unit_space_def near_lnor_def
        compare_ff_def float_1e_4_def)
  moreover have "BKE_lnor_space_custom_normal_to_data collapsed_space (1, 0, 0) \<noteq> (0, 0)"
  proof -
    have far: "\<not> compare_v3v3 (vec_lnor collapsed_space) (1, 0, 0) float_1e_4"
      by (simp add: collapsed zero_space_def zero_v3_def compare_ff_def float_1e_4_def)
    have "4 / 65534 \<le> saacos (dot_v3v3 (vec_lnor collapsed_space) (1, 0, 0))"
      by (rule far_alpha [OF _ _ far]) (simp_all add: collapsed zero_space_def zero_v3_def)
    then have "unit_float_to_short (coded_factor (ref_alpha collapsed_space)
        (saacos (dot_v3v3 (vec_lnor collapsed_space) (1, 0, 0)))) \<noteq> 0"
      using saacos_range(2) [of "dot_v3v3 (vec_lnor collapsed_space) (1, 0, 0)"] pi_gt_zero
      by (intro coded_factor_nonzero) (simp_all add: collapsed zero_space_def)
    then show ?thesis
      using encoder_unfold [OF _ far] by simp
  qed
  ultimately show ?thesis
    by (simp add: collapsed zero_space_def) (simp add: near_lnor_def unit_space_def)
qed

text \<open>
  The length of the normal matters: the vector \<open>(2\<^sup>-\<^sup>1\<^sup>2, 0, 1)\<close>, of squared length
  \<open>1 + 2\<^sup>-\<^sup>2\<^sup>4\<close>, is not within the tolerance of the axis of \<open>unit_space\<close> and is coded
  \<open>(0, 0)\<close>: both cosines the encoder computes are 1.
\<close>

lemma long_normal_coded_zero:
  "\<not> compare_v3v3 (vec_lnor unit_space) (1 / 4096, 0, 1) float_1e_4
   \<and> BKE_lnor_space_custom_normal_to_data unit_space (1 / 4096, 0, 1) = (0, 0)"
  by (simp add: BKE_lnor_space_custom_normal_to_data_def unit_space_def compare_ff_def
      float_1e_4_def Let_def saacos_def normalize_v3_v3_def normalize_eps_def sqrt_float_unit
      LNOR_SPACE_TRIGO_THRESHOLD_def unit_float_to_short_def SHRT_MAX_def)

text \<open>
  C2, amended. The encoder answers \<open>(0, 0)\<close> for a normal of about unit length exactly when
  the normal is within \<^verbatim>\<open>1e-4f\<close> of the axis of the space on every component, whatever the
  reference angles are, also in a degenerate space; it answers \<open>(0, 0)\<close> for the zero vector; and
  the decoder gives the axis of the space for the code \<open>(0, 0)\<close>, as for every code whose first
  component is 0.
\<close>

theorem C2_reserved_code:
  "(dot_v3v3 (vec_lnor lnor_space) (vec_lnor lnor_space) \<le> 1
     \<and> 0 \<le> ref_alpha lnor_space \<and> ref_alpha lnor_space \<le> pi
     \<and> \<bar>dot_v3v3 custom_lnor custom_lnor - 1\<bar> \<le> 1 / 10 ^ 9
    \<longrightarrow> (BKE_lnor_space_custom_normal_to_data lnor_space custom_lnor = (0, 0))
          = compare_v3v3 (vec_lnor lnor_space) custom_lnor float_1e_4)
   \<and> BKE_lnor_space_custom_normal_to_data lnor_space zero_v3 = (0, 0)
   \<and> BKE_lnor_space_custom_data_to_normal lnor_space (0, d1) = vec_lnor lnor_space"
proof -
  have code: "(BKE_lnor_space_custom_normal_to_data lnor_space custom_lnor = (0, 0))
      = compare_v3v3 (vec_lnor lnor_space) custom_lnor float_1e_4"
    if axis: "dot_v3v3 (vec_lnor lnor_space) (vec_lnor lnor_space) \<le> 1"
      and ref: "0 \<le> ref_alpha lnor_space" "ref_alpha lnor_space \<le> pi"
      and near: "\<bar>dot_v3v3 custom_lnor custom_lnor - 1\<bar> \<le> 1 / 10 ^ 9"
  proof (cases "compare_v3v3 (vec_lnor lnor_space) custom_lnor float_1e_4")
    case True
    then show ?thesis by (simp add: BKE_lnor_space_custom_normal_to_data_def)
  next
    case False
    have "\<bar>dot_v3v3 custom_lnor custom_lnor - 1\<bar> \<le> 1 / 2" using near by simp
    then have "0 < dot_v3v3 custom_lnor custom_lnor" by linarith
    then have nz: "\<not> is_zero_v3 custom_lnor" by (rule positive_not_zero)
    have "4 / 65534 \<le> saacos (dot_v3v3 (vec_lnor lnor_space) custom_lnor)"
      using axis near False by (rule far_alpha)
    then have "unit_float_to_short (coded_factor (ref_alpha lnor_space)
        (saacos (dot_v3v3 (vec_lnor lnor_space) custom_lnor))) \<noteq> 0"
      using ref saacos_range(2) by (intro coded_factor_nonzero) auto
    then have "BKE_lnor_space_custom_normal_to_data lnor_space custom_lnor \<noteq> (0, 0)"
      using encoder_unfold [OF nz False] by simp
    then show ?thesis using False by simp
  qed
  have zero: "BKE_lnor_space_custom_normal_to_data lnor_space zero_v3 = (0, 0)"
    by (simp add: BKE_lnor_space_custom_normal_to_data_def zero_v3_def)
  have dec: "BKE_lnor_space_custom_data_to_normal lnor_space (0, d1) = vec_lnor lnor_space"
    by (simp add: BKE_lnor_space_custom_data_to_normal_def)
  show ?thesis using code zero dec by blast
qed

theorem C2_reserved_code_witness:
  "dot_v3v3 (vec_lnor quarter_space) (vec_lnor quarter_space) \<le> 1
   \<and> 0 \<le> ref_alpha quarter_space \<and> ref_alpha quarter_space \<le> pi
   \<and> \<bar>dot_v3v3 tilted_lnor tilted_lnor - 1\<bar> \<le> 1 / 10 ^ 9
   \<and> \<not> compare_v3v3 (vec_lnor quarter_space) tilted_lnor float_1e_4
   \<and> BKE_lnor_space_custom_normal_to_data quarter_space tilted_lnor \<noteq> (0, 0)
   \<and> BKE_lnor_space_custom_normal_to_data quarter_space zero_v3 = (0, 0)
   \<and> BKE_lnor_space_custom_data_to_normal quarter_space (0, 0) = vec_lnor quarter_space"
proof -
  have axis: "dot_v3v3 (vec_lnor quarter_space) (vec_lnor quarter_space) \<le> 1"
    by (simp add: quarter_space_eq)
  have ref: "0 \<le> ref_alpha quarter_space" "ref_alpha quarter_space \<le> pi"
    using pi_gt_zero by (simp_all add: quarter_space_eq)
  have near: "\<bar>dot_v3v3 tilted_lnor tilted_lnor - 1\<bar> \<le> 1 / 10 ^ 9"
    by (simp add: tilted_lnor_def)
  have far: "\<not> compare_v3v3 (vec_lnor quarter_space) tilted_lnor float_1e_4"
    by (simp add: quarter_space_eq tilted_lnor_def compare_ff_def float_1e_4_def)
  from C2_reserved_code [of quarter_space tilted_lnor 0] axis ref near far
  have "BKE_lnor_space_custom_normal_to_data quarter_space tilted_lnor \<noteq> (0, 0)
     \<and> BKE_lnor_space_custom_normal_to_data quarter_space zero_v3 = (0, 0)
     \<and> BKE_lnor_space_custom_data_to_normal quarter_space (0, 0) = vec_lnor quarter_space"
    by blast
  with axis ref near far show ?thesis by blast
qed

end
